(* ===== verification/Prelude.thy ===== *)
theory Prelude
  imports Main "HOL-Library.Word" "HOL-Library.Multiset" "HOL-Library.AList"
begin

text \<open>
  Shared vocabulary of the development: Go's machine integers written as \<open>int\<close> with
  the wrap-around explicit, decimal formatting (\<open>strconv.Itoa\<close>, the verb \<open>%d\<close>), Go maps as
  association lists with distinct keys, and the theorem collections the component
  theories feed (\<open>go_simps\<close> for unfolding primitives, \<open>inv_intros\<close> for invariants).
\<close>

named_theorems go_simps "equations of the Go primitives"
named_theorems inv_intros "preservation lemmas of the component invariants"

section \<open>Machine integers\<close>

text \<open>
  Go's \<open>int\<close> and \<open>int64\<close> are 64-bit two's complement on the platforms the services are
  built for. A value is an \<open>int\<close> within \<open>in_int64\<close>; \<open>wrap64\<close> is what the
  machine keeps of an arithmetic result.
\<close>

definition in_int64 :: "int \<Rightarrow> bool" where
  "in_int64 x \<longleftrightarrow> - (2 ^ 63) \<le> x \<and> x < 2 ^ 63"

definition wrap64 :: "int \<Rightarrow> int" where
  "wrap64 x = (x + 2 ^ 63) mod 2 ^ 64 - 2 ^ 63"

lemma wrap64_in_int64 [simp]: "in_int64 (wrap64 x)"
  by (simp add: wrap64_def in_int64_def)

lemma wrap64_id [simp]: "in_int64 x \<Longrightarrow> wrap64 x = x"
  by (simp add: wrap64_def in_int64_def)

lemma wrap64_succ: "in_int64 x \<Longrightarrow> x < 2 ^ 63 - 1 \<Longrightarrow> wrap64 (x + 1) = x + 1"
  by (simp add: in_int64_def)

section \<open>Decimal formatting\<close>

text \<open>The digit characters \<open>'0'\<close> to \<open>'9'\<close>.\<close>

definition digit_char :: "nat \<Rightarrow> char" where
  "digit_char d = char_of (48 + d)"

definition is_digit :: "char \<Rightarrow> bool" where
  "is_digit c \<longleftrightarrow> 48 \<le> (of_char c :: nat) \<and> (of_char c :: nat) \<le> 57"

definition digit_val :: "char \<Rightarrow> nat" where
  "digit_val c = of_char c - 48"

fun nat_str :: "nat \<Rightarrow> string" where
  "nat_str n = (if n < 10 then [digit_char n] else nat_str (n div 10) @ [digit_char (n mod 10)])"

declare nat_str.simps [simp del]

definition itoa :: "int \<Rightarrow> string" where
  "itoa i = (if i < 0 then CHR ''-'' # nat_str (nat (- i)) else nat_str (nat i))"

lemma nat_str_0 [simp]: "nat_str 0 = ''0''"
proof -
  have "of_char (CHR ''0'') = (48 :: nat)" by simp
  then have "digit_char 0 = CHR ''0''"
    unfolding digit_char_def by (metis add.right_neutral char_of_char)
  then show ?thesis by (simp add: nat_str.simps)
qed

lemma of_char_digit_char [simp]: "d < 10 \<Longrightarrow> of_char (digit_char d) = 48 + d"
  by (simp add: digit_char_def)

lemma is_digit_digit_char [simp]: "d < 10 \<Longrightarrow> is_digit (digit_char d)"
  by (simp add: is_digit_def)

lemma digit_val_digit_char [simp]: "d < 10 \<Longrightarrow> digit_val (digit_char d) = d"
  by (simp add: digit_val_def)

lemma nat_str_nonempty [simp]: "nat_str n \<noteq> []"
  by (subst nat_str.simps) simp

lemma nat_str_digits: "c \<in> set (nat_str n) \<Longrightarrow> is_digit c"
proof (induction n rule: nat_str.induct)
  case (1 n)
  show ?case
  proof (cases "n < 10")
    case True
    with "1.prems" show ?thesis by (simp add: nat_str.simps [of n])
  next
    case False
    with "1.prems" have "c \<in> set (nat_str (n div 10)) \<or> c = digit_char (n mod 10)"
      by (auto simp: nat_str.simps [of n])
    with False "1.IH" show ?thesis by auto
  qed
qed

text \<open>Reading digits back, most significant first.\<close>

fun digits_val :: "nat \<Rightarrow> string \<Rightarrow> nat" where
  "digits_val a [] = a"
| "digits_val a (c # cs) = digits_val (10 * a + digit_val c) cs"

lemma digits_val_append: "digits_val a (xs @ ys) = digits_val (digits_val a xs) ys"
  by (induction xs arbitrary: a) auto

lemma digits_val_nat_str [simp]: "digits_val 0 (nat_str n) = n"
proof (induction n rule: nat_str.induct)
  case (1 n)
  show ?case
  proof (cases "n < 10")
    case True
    then show ?thesis by (simp add: nat_str.simps [of n])
  next
    case False
    with "1.IH" have "digits_val 0 (nat_str (n div 10)) = n div 10" by simp
    with False show ?thesis by (simp add: nat_str.simps [of n] digits_val_append)
  qed
qed

lemma nat_str_inject [simp]: "nat_str m = nat_str n \<longleftrightarrow> m = n"
  by (metis digits_val_nat_str)

lemma minus_not_digit [simp]: "\<not> is_digit (CHR ''-'')"
  by (simp add: is_digit_def)

lemma nat_str_not_minus: "nat_str m \<noteq> CHR ''-'' # cs"
  by (metis list.set_intros(1) minus_not_digit nat_str_digits)

lemma itoa_inject [simp]: "itoa i = itoa j \<longleftrightarrow> i = j"
  by (auto simp: itoa_def nat_str_not_minus nat_str_not_minus [symmetric])

lemma nat_str_leading: "0 < n \<Longrightarrow> hd (nat_str n) \<noteq> CHR ''0''"
proof (induction n rule: nat_str.induct)
  case (1 n)
  show ?case
  proof (cases "n < 10")
    case True
    have "digit_val (CHR ''0'') = 0" by (simp add: digit_val_def)
    with True "1.prems" have "digit_char n \<noteq> CHR ''0''"
      by (metis digit_val_digit_char less_irrefl)
    with True show ?thesis by (simp add: nat_str.simps [of n])
  next
    case False
    with "1.IH" show ?thesis by (simp add: nat_str.simps [of n])
  qed
qed

section \<open>Go maps\<close>

text \<open>
  A Go map is an association list with distinct keys: \<open>map_of\<close> is the lookup,
  \<open>AList.update\<close> the assignment \<open>m[k] = v\<close>, \<open>AList.delete\<close> the built-in
  \<open>delete\<close>. The order of the list is one of the orders in which \<open>range\<close> may visit the
  map; nothing the code computes may depend on it.
\<close>

definition gomap_ok :: "('k \<times> 'v) list \<Rightarrow> bool" where
  "gomap_ok m \<longleftrightarrow> distinct (map fst m)"

lemma gomap_ok_Nil [simp, inv_intros]: "gomap_ok []"
  by (simp add: gomap_ok_def)

lemma gomap_ok_update [simp, inv_intros]: "gomap_ok m \<Longrightarrow> gomap_ok (AList.update k v m)"
  by (simp add: gomap_ok_def distinct_update)

lemma gomap_ok_delete [simp, inv_intros]: "gomap_ok m \<Longrightarrow> gomap_ok (AList.delete k m)"
  by (simp add: gomap_ok_def distinct_delete)

lemma map_of_delete [go_simps]: "map_of (AList.delete k m) = (map_of m)(k := None)"
  by (simp add: delete_conv')

lemma map_of_update [go_simps]: "map_of (AList.update k v m) = (map_of m)(k \<mapsto> v)"
  by (simp add: update_conv')

lemma gomap_in_set: "gomap_ok m \<Longrightarrow> (k, v) \<in> set m \<longleftrightarrow> map_of m k = Some v"
  by (simp add: gomap_ok_def map_of_eq_Some_iff)

lemma gomap_range: "gomap_ok m \<Longrightarrow> snd ` set m = ran (map_of m)"
  unfolding gomap_ok_def by (rule ran_distinct [symmetric])

end
