(* ===== verification/Config.thy ===== *)
theory Config
  imports Prelude
begin

text \<open>
  How the services read their environment: the two \<open>getEnvOrDefault\<close>s (sandbox and
  leaderboard), \<open>getEnvIntOrDefault\<close>, \<open>resolveTargetIP\<close> and \<open>benchmarkDefaults\<close> of
  \<open>cmd/sandbox/benchmark.go\<close>, and the start-up of the two database clients (\<open>initDB\<close> of
  \<open>cmd/telemetry/db.go\<close>, \<open>main\<close> of \<open>cmd/leaderboard/main.go\<close>). The process environment
  is a function from names to values; how PostgreSQL and Redis answer is an input.
\<close>

type_synonym environ = "string \<Rightarrow> string option"

text \<open>\<open>os.Getenv\<close>: empty when the variable is not set.\<close>

definition getenv :: "environ \<Rightarrow> string \<Rightarrow> string" where
  "getenv env key = (case env key of None \<Rightarrow> [] | Some v \<Rightarrow> v)"

section \<open>Defaults\<close>

definition getEnvOrDefault :: "environ \<Rightarrow> string \<Rightarrow> string \<Rightarrow> string" where
  "getEnvOrDefault env key fallback = (let v = getenv env key in if v \<noteq> [] then v else fallback)"

text \<open>The leaderboard's version, over \<open>os.LookupEnv\<close>.\<close>

definition getEnvOrDefault_lb :: "environ \<Rightarrow> string \<Rightarrow> string \<Rightarrow> string" where
  "getEnvOrDefault_lb env key fallback =
     (case env key of Some v \<Rightarrow> if v \<noteq> [] then v else fallback | None \<Rightarrow> fallback)"

text \<open>\<open>strconv.Atoi\<close>: an optional sign, decimal digits, a value that fits an \<open>int\<close>.\<close>

definition atoi :: "string \<Rightarrow> int option" where
  "atoi s =
     (let neg = take 1 s = ''-''; ds = (if neg \<or> take 1 s = ''+'' then drop 1 s else s)
      in if ds = [] \<or> \<not> list_all is_digit ds then None
         else let v = (if neg then - int (digits_val 0 ds) else int (digits_val 0 ds))
              in if in_int64 v then Some v else None)"

definition getEnvIntOrDefault :: "environ \<Rightarrow> string \<Rightarrow> int \<Rightarrow> int" where
  "getEnvIntOrDefault env key fallback =
     (let v = getenv env key
      in if v \<noteq> []
         then (case atoi v of Some parsed \<Rightarrow> if parsed > 0 then parsed else fallback | None \<Rightarrow> fallback)
         else fallback)"

definition resolveTargetIP :: "environ \<Rightarrow> string" where
  "resolveTargetIP env =
     (if getenv env ''POD_IP'' \<noteq> [] then getenv env ''POD_IP''
      else if getenv env ''HOST_IP'' \<noteq> [] then getenv env ''HOST_IP''
      else ''127.0.0.1'')"

record benchmark_config =
  bc_URL :: string
  bc_NumBots :: int
  bc_NumOrders :: int
  bc_TPS :: int

definition benchmarkDefaults :: "environ \<Rightarrow> benchmark_config" where
  "benchmarkDefaults env =
     \<lparr>bc_URL = getEnvOrDefault env ''FLEET_RUN_URL'' ''http://fleet:8080/run'',
      bc_NumBots = getEnvIntOrDefault env ''BENCH_NUM_BOTS'' 200,
      bc_NumOrders = getEnvIntOrDefault env ''BENCH_NUM_ORDERS'' 10000,
      bc_TPS = getEnvIntOrDefault env ''BENCH_TPS'' 500\<rparr>"

section \<open>Database clients\<close>

definition postgres_url :: "string \<Rightarrow> string \<Rightarrow> string \<Rightarrow> string \<Rightarrow> string \<Rightarrow> string" where
  "postgres_url user password host port dbName =
     ''postgres://'' @ user @ '':'' @ password @ ''@'' @ host @ '':'' @ port @ ''/'' @ dbName @ ''?sslmode=disable''"

definition telemetry_connStr :: "environ \<Rightarrow> string" where
  "telemetry_connStr env =
     (let host = getenv env ''DB_HOST''; host = (if host = [] then ''localhost'' else host);
          port = getenv env ''DB_PORT''; port = (if port = [] then ''5432'' else port);
          user = getenv env ''DB_USER''; user = (if user = [] then ''iicpc_admin'' else user);
          password = getenv env ''DB_PASSWORD'';
          password = (if password = [] then ''supersecretpassword'' else password);
          dbName = getenv env ''DB_NAME''; dbName = (if dbName = [] then ''metrics_db'' else dbName)
      in postgres_url user password host port dbName)"

definition leaderboard_connStr :: "environ \<Rightarrow> string" where
  "leaderboard_connStr env =
     (let dbHost = getEnvOrDefault_lb env ''DB_HOST'' ''localhost'';
          dbPort = getEnvOrDefault_lb env ''DB_PORT'' ''5432'';
          dbUser = getEnvOrDefault_lb env ''DB_USER'' ''iicpc_admin'';
          dbPassword = getenv env ''DB_PASSWORD'';
          dbPassword = (if dbPassword = [] then ''supersecretpassword'' else dbPassword);
          dbName = getEnvOrDefault_lb env ''DB_NAME'' ''metrics_db''
      in postgres_url dbUser dbPassword dbHost dbPort dbName)"

text \<open>The schema objects the telemetry service sets up, and how the server takes each statement.\<close>

record schema =
  has_order_metrics :: bool
  is_hypertable :: bool
  has_run_index :: bool

record db_answers =
  sql_open :: "string \<Rightarrow> bool"
  create_table :: bool
  create_hypertable :: bool
  create_index :: bool

datatype startup = FatalExit string | Connected string

text \<open>Only the connection and the table are required; the other two errors are logged.\<close>

definition initDB :: "environ \<Rightarrow> db_answers \<Rightarrow> schema \<Rightarrow> schema \<times> startup" where
  "initDB env a s =
     (let connStr = telemetry_connStr env
      in if \<not> sql_open a connStr then (s, FatalExit ''Failed to connect to DB:'')
         else if \<not> create_table a then (s, FatalExit ''Failed to create table'')
         else let s1 = s\<lparr>has_order_metrics := True\<rparr>;
                  s2 = (if create_hypertable a then s1\<lparr>is_hypertable := True\<rparr> else s1);
                  s3 = (if create_index a then s2\<lparr>has_run_index := True\<rparr> else s2)
              in (s3, Connected connStr))"

record lb_answers =
  lb_open :: "string \<Rightarrow> bool"
  lb_db_ping :: bool
  lb_redis_ping :: "string \<Rightarrow> bool"

datatype lb_startup =
    LbFatal string
  | LbServing (lb_conn: string) (lb_redis: string) (lb_addr: string)

definition leaderboard_main :: "environ \<Rightarrow> lb_answers \<Rightarrow> lb_startup" where
  "leaderboard_main env a =
     (let connStr = leaderboard_connStr env
      in if \<not> lb_open a connStr then LbFatal ''Failed to open database connection''
         else if \<not> lb_db_ping a then LbFatal ''Cannot reach TimescaleDB''
         else let redisHost = getEnvOrDefault_lb env ''REDIS_HOST'' ''localhost:6379''
              in if \<not> lb_redis_ping a redisHost then LbFatal ''Cannot reach Redis''
                 else LbServing connStr redisHost '':8085'')"

section \<open>Facts\<close>

lemma getEnvOrDefault_same: "getEnvOrDefault_lb env key fb = getEnvOrDefault env key fb"
  by (simp add: getEnvOrDefault_lb_def getEnvOrDefault_def getenv_def split: option.split)

lemma getEnvOrDefault_nonempty: "fb \<noteq> [] \<Longrightarrow> getEnvOrDefault env key fb \<noteq> []"
  by (simp add: getEnvOrDefault_def Let_def)

lemma resolveTargetIP_nonempty [simp]: "resolveTargetIP env \<noteq> []"
  by (simp add: resolveTargetIP_def)

lemma atoi_in_int64: "atoi s = Some v \<Longrightarrow> in_int64 v"
  by (auto simp: atoi_def Let_def split: if_splits)

lemma atoi_itoa: "in_int64 i \<Longrightarrow> atoi (itoa i) = Some i"
proof -
  assume i: "in_int64 i"
  have d: "list_all is_digit (nat_str n)" for n
    using nat_str_digits [of _ n] by (simp add: list_all_iff)
  have sign: "take (Suc 0) (nat_str n) \<noteq> ''-''" "take (Suc 0) (nat_str n) \<noteq> ''+''" for n
    using d [of n] nat_str_nonempty [of n]
    by (cases "nat_str n"; simp add: is_digit_def; fastforce)+
  show ?thesis
    using i by (auto simp: atoi_def itoa_def Let_def d sign)
qed

lemma getEnvIntOrDefault_range:
  "0 < fb \<Longrightarrow> in_int64 fb \<Longrightarrow>
   0 < getEnvIntOrDefault env key fb \<and> in_int64 (getEnvIntOrDefault env key fb)"
  by (auto simp: getEnvIntOrDefault_def Let_def atoi_in_int64 split: option.split)

text \<open>
  The telemetry service, which spells out every default, and the leaderboard,
  which uses \<open>getEnvOrDefault\<close>, connect to the same database under every environment.
\<close>

lemma same_database:
  "telemetry_connStr env = leaderboard_connStr env"
  by (simp add: telemetry_connStr_def leaderboard_connStr_def getEnvOrDefault_same
      getEnvOrDefault_def Let_def)

text \<open>
  Whatever the environment holds (numbers out of range, signs, garbage), the
  benchmark the sandbox asks for has a non-empty URL and positive 64-bit sizes.
\<close>

lemma benchmarkDefaults_sane:
  "bc_URL (benchmarkDefaults env) \<noteq> [] \<and>
   0 < bc_NumBots (benchmarkDefaults env) \<and> in_int64 (bc_NumBots (benchmarkDefaults env)) \<and>
   0 < bc_NumOrders (benchmarkDefaults env) \<and> in_int64 (bc_NumOrders (benchmarkDefaults env)) \<and>
   0 < bc_TPS (benchmarkDefaults env) \<and> in_int64 (bc_TPS (benchmarkDefaults env))"
  using getEnvIntOrDefault_range [of 200 env "''BENCH_NUM_BOTS''"]
    getEnvIntOrDefault_range [of 10000 env "''BENCH_NUM_ORDERS''"]
    getEnvIntOrDefault_range [of 500 env "''BENCH_TPS''"]
  by (simp add: benchmarkDefaults_def getEnvOrDefault_nonempty in_int64_def)

text \<open>
  When \<open>initDB\<close> returns, the table the batches are copied into exists, whether or
  not the hypertable and the index could be created, and nothing that existed was dropped.
\<close>

lemma initDB_table:
  "initDB env a s = (s', Connected url) \<Longrightarrow>
   has_order_metrics s' \<and> (is_hypertable s \<longrightarrow> is_hypertable s') \<and>
   (has_run_index s \<longrightarrow> has_run_index s')"
  by (auto simp: initDB_def Let_def split: if_splits)

end
