(* ===== verification/Utf8.thy ===== *)
theory Utf8
  imports Prelude
begin

text \<open>
  UTF-8 as Go's \<open>unicode/utf8\<close> reads it, over strings that are byte sequences, and the string
  half of \<open>encoding/json\<close>: \<open>json_escape\<close> is the encoder's \<open>appendString\<close> (HTML escaping
  on, as \<open>json.Marshal\<close> uses it), \<open>str_body\<close> the decoder's scanning and \<open>unquote\<close> of a string
  after its opening quote. The main fact: decoding an encoded string gives the string with
  every byte that is not part of a well-formed rune replaced by U+FFFD, so valid UTF-8
  survives unchanged.
\<close>

abbreviation byte :: "char \<Rightarrow> nat" where
  "byte c \<equiv> of_char c"

section \<open>Runes\<close>

definition is_cont :: "char \<Rightarrow> bool" where
  "is_cont c \<longleftrightarrow> 128 \<le> byte c \<and> byte c \<le> 191"

definition in_bytes :: "nat \<Rightarrow> nat \<Rightarrow> char \<Rightarrow> bool" where
  "in_bytes lo hi c \<longleftrightarrow> lo \<le> byte c \<and> byte c \<le> hi"

text \<open>
  The well-formed sequences of two, three and four bytes (the table of \<open>unicode/utf8\<close>: no
  overlong forms, no surrogates, nothing beyond U+10FFFF).
\<close>

definition rune2 :: "char \<Rightarrow> char \<Rightarrow> bool" where
  "rune2 c c1 \<longleftrightarrow> in_bytes 194 223 c \<and> is_cont c1"

definition rune3 :: "char \<Rightarrow> char \<Rightarrow> char \<Rightarrow> bool" where
  "rune3 c c1 c2 \<longleftrightarrow> in_bytes 224 239 c \<and>
     in_bytes (if byte c = 224 then 160 else 128) (if byte c = 237 then 159 else 191) c1 \<and>
     is_cont c2"

definition rune4 :: "char \<Rightarrow> char \<Rightarrow> char \<Rightarrow> char \<Rightarrow> bool" where
  "rune4 c c1 c2 c3 \<longleftrightarrow> in_bytes 240 244 c \<and>
     in_bytes (if byte c = 240 then 144 else 128) (if byte c = 244 then 143 else 191) c1 \<and>
     is_cont c2 \<and> is_cont c3"

text \<open>
  The length of the well-formed rune a byte string starts with; 0 if it starts with none
  (where \<open>DecodeRune\<close> returns \<open>RuneError\<close> with size 1).
\<close>

definition rune_len :: "string \<Rightarrow> nat" where
  "rune_len s =
     (case s of [] \<Rightarrow> 0
      | c # s1 \<Rightarrow> if byte c < 128 then 1
        else (case s1 of [] \<Rightarrow> 0
      | c1 # s2 \<Rightarrow> if rune2 c c1 then 2
        else (case s2 of [] \<Rightarrow> 0
      | c2 # s3 \<Rightarrow> if rune3 c c1 c2 then 3
        else (case s3 of [] \<Rightarrow> 0
      | c3 # _ \<Rightarrow> if rune4 c c1 c2 c3 then 4 else 0))))"

lemma rune_len_le: "rune_len s \<le> length s"
  by (simp add: rune_len_def split: list.split)

lemma rune_len_append:
  assumes "rune_len s \<noteq> 0"
  shows "rune_len (take (rune_len s) s @ t) = rune_len s"
proof -
  consider "s = []" | c where "s = [c]" | c c1 where "s = [c, c1]" | c c1 c2 where "s = [c, c1, c2]"
    | c c1 c2 c3 r where "s = c # c1 # c2 # c3 # r"
    by (metis list.exhaust)
  then show ?thesis
    by cases (use assms in \<open>auto simp: rune_len_def split: if_splits\<close>)
qed

lemma rune_high:
  "rune2 c c1 \<Longrightarrow> 128 \<le> byte c \<and> 128 \<le> byte c1"
  "rune3 c c1 c2 \<Longrightarrow> 128 \<le> byte c \<and> 128 \<le> byte c1 \<and> 128 \<le> byte c2"
  "rune4 c c1 c2 c3 \<Longrightarrow> 128 \<le> byte c \<and> 128 \<le> byte c1 \<and> 128 \<le> byte c2 \<and> 128 \<le> byte c3"
  by (auto simp: rune2_def rune3_def rune4_def in_bytes_def is_cont_def split: if_splits)

text \<open>The bytes of U+FFFD, and of a code point in general (\<open>utf8.AppendRune\<close>).\<close>

definition runeError :: string where
  "runeError = [char_of (239 :: nat), char_of (191 :: nat), char_of (189 :: nat)]"

definition encode_rune :: "nat \<Rightarrow> string" where
  "encode_rune r =
     (if r < 128 then [char_of r]
      else if r < 2048 then [char_of (192 + r div 64), char_of (128 + r mod 64)]
      else if 55296 \<le> r \<and> r < 57344 then runeError
      else if r < 65536 then
        [char_of (224 + r div 4096), char_of (128 + r div 64 mod 64), char_of (128 + r mod 64)]
      else if r < 1114112 then
        [char_of (240 + r div 262144), char_of (128 + r div 4096 mod 64),
         char_of (128 + r div 64 mod 64), char_of (128 + r mod 64)]
      else runeError)"

lemma encode_rune_error: "encode_rune 65533 = runeError"
  by (simp add: encode_rune_def runeError_def)

text \<open>Replacing what is not UTF-8; \<open>valid_utf8\<close> strings are the fixed points.\<close>

function to_valid_utf8 :: "string \<Rightarrow> string" where
  "to_valid_utf8 s =
     (if s = [] then []
      else if rune_len s = 0 then runeError @ to_valid_utf8 (tl s)
      else take (rune_len s) s @ to_valid_utf8 (drop (rune_len s) s))"
  by pat_completeness auto
termination
  by (relation "measure length") auto

declare to_valid_utf8.simps [simp del]

definition ascii :: "string \<Rightarrow> bool" where
  "ascii s \<longleftrightarrow> list_all (\<lambda>c. byte c < 128) s"

function valid_utf8 :: "string \<Rightarrow> bool" where
  "valid_utf8 s =
     (if s = [] then True
      else if rune_len s = 0 then False
      else valid_utf8 (drop (rune_len s) s))"
  by pat_completeness auto
termination
  by (relation "measure length") auto

declare valid_utf8.simps [simp del]

lemma to_valid_utf8_id: "valid_utf8 s \<Longrightarrow> to_valid_utf8 s = s"
proof (induction s rule: valid_utf8.induct)
  case (1 s)
  then show ?case
    by (auto simp: to_valid_utf8.simps [of s] valid_utf8.simps [of s] split: if_splits)
qed

lemma rune_len_ascii: "byte c < 128 \<Longrightarrow> rune_len (c # cs) = 1"
  by (simp add: rune_len_def)

lemma ascii_valid: "ascii s \<Longrightarrow> valid_utf8 s"
proof (induction s)
  case Nil
  then show ?case by (simp add: valid_utf8.simps)
next
  case (Cons c cs)
  then show ?case
    by (simp add: valid_utf8.simps [of "c # cs"] rune_len_ascii ascii_def)
qed

section \<open>Escaping\<close>

definition hex_char :: "nat \<Rightarrow> char" where
  "hex_char d = (if d < 10 then char_of (48 + d) else char_of (87 + d))"

definition hex_val :: "char \<Rightarrow> nat option" where
  "hex_val c =
     (let b = byte c in
      if 48 \<le> b \<and> b \<le> 57 then Some (b - 48)
      else if 97 \<le> b \<and> b \<le> 102 then Some (b - 87)
      else if 65 \<le> b \<and> b \<le> 70 then Some (b - 55)
      else None)"

lemma hex_val_hex_char [simp]: "d < 16 \<Longrightarrow> hex_val (hex_char d) = Some d"
  by (auto simp: hex_val_def hex_char_def Let_def)

text \<open>One byte below 128: printable ones except the quote, the backslash and the HTML
  characters are copied, the rest escaped.\<close>

definition esc_ascii :: "char \<Rightarrow> string" where
  "esc_ascii c =
     (if c = CHR ''\"'' \<or> c = CHR 92 then [CHR 92, c]
      else if byte c = 8 then [CHR 92, CHR ''b'']
      else if byte c = 12 then [CHR 92, CHR ''f'']
      else if byte c = 10 then [CHR 92, CHR ''n'']
      else if byte c = 13 then [CHR 92, CHR ''r'']
      else if byte c = 9 then [CHR 92, CHR ''t'']
      else if byte c < 32 \<or> c = CHR ''<'' \<or> c = CHR ''>'' \<or> c = CHR ''&'' then
        [CHR 92, CHR ''u'', CHR ''0'', CHR ''0'', hex_char (byte c div 16), hex_char (byte c mod 16)]
      else [c])"

definition line_sep :: string where
  "line_sep = [char_of (226 :: nat), char_of (128 :: nat), char_of (168 :: nat)]"

definition para_sep :: string where
  "para_sep = [char_of (226 :: nat), char_of (128 :: nat), char_of (169 :: nat)]"

definition esc_rune :: "string \<Rightarrow> string" where
  "esc_rune r =
     (if r = line_sep then CHR 92 # ''u2028''
      else if r = para_sep then CHR 92 # ''u2029''
      else r)"

function json_escape :: "string \<Rightarrow> string" where
  "json_escape s =
     (if s = [] then []
      else if byte (hd s) < 128 then esc_ascii (hd s) @ json_escape (tl s)
      else if rune_len s = 0 then (CHR 92 # ''ufffd'') @ json_escape (tl s)
      else esc_rune (take (rune_len s) s) @ json_escape (drop (rune_len s) s))"
  by pat_completeness auto
termination
  by (relation "measure length") auto

declare json_escape.simps [simp del]

section \<open>Scanning and unquoting\<close>

fun hex4 :: "string \<Rightarrow> (nat \<times> string) option" where
  "hex4 (a # b # c # d # rest) =
     (case (hex_val a, hex_val b, hex_val c, hex_val d) of
        (Some w, Some x, Some y, Some z) \<Rightarrow> Some (((w * 16 + x) * 16 + y) * 16 + z, rest)
      | _ \<Rightarrow> None)"
| "hex4 _ = None"

lemma hex4_length: "hex4 s = Some (r, t) \<Longrightarrow> length t < length s"
  by (induction s rule: hex4.induct) (auto split: option.splits)

text \<open>The escapes of one letter.\<close>

definition unescape :: "char \<Rightarrow> char option" where
  "unescape e =
     (if e = CHR ''\"'' \<or> e = CHR 92 \<or> e = CHR ''/'' then Some e
      else if e = CHR ''b'' then Some (char_of (8 :: nat))
      else if e = CHR ''f'' then Some (char_of (12 :: nat))
      else if e = CHR ''n'' then Some (char_of (10 :: nat))
      else if e = CHR ''r'' then Some (char_of (13 :: nat))
      else if e = CHR ''t'' then Some (char_of (9 :: nat))
      else None)"

definition is_surrogate :: "nat \<Rightarrow> bool" where
  "is_surrogate r \<longleftrightarrow> 55296 \<le> r \<and> r < 57344"

text \<open>
  The rune of the escape that starts after \<open>\u\<close> and what follows it: a surrogate pair is combined,
  a lone surrogate is U+FFFD.
\<close>

definition surrogate_tail :: "string \<Rightarrow> (nat \<times> string) option" where
  "surrogate_tail s =
     (case s of
        b # u # rest \<Rightarrow> if b = CHR 92 \<and> u = CHR ''u'' then hex4 rest else None
      | _ \<Rightarrow> None)"

definition u_escape :: "string \<Rightarrow> (string \<times> string) option" where
  "u_escape s =
     (case hex4 s of
        None \<Rightarrow> None
      | Some (r, t) \<Rightarrow>
          if is_surrogate r then
            (case surrogate_tail t of
               Some (r2, t2) \<Rightarrow>
                 if r < 56320 \<and> 56320 \<le> r2 \<and> r2 < 57344
                 then Some (encode_rune ((r - 55296) * 1024 + (r2 - 56320) + 65536), t2)
                 else Some (runeError, t)
             | None \<Rightarrow> Some (runeError, t))
          else Some (encode_rune r, t))"

lemma surrogate_tail_length: "surrogate_tail s = Some (r, t) \<Longrightarrow> length t < length s"
  by (auto simp: surrogate_tail_def split: list.splits if_splits dest!: hex4_length)

lemma u_escape_length: "u_escape s = Some (x, t) \<Longrightarrow> length t < length s"
  by (auto simp: u_escape_def split: option.splits if_splits
      dest!: hex4_length surrogate_tail_length)

definition str_cons :: "string \<Rightarrow> (string \<times> string) option \<Rightarrow> (string \<times> string) option" where
  "str_cons x r = (case r of None \<Rightarrow> None | Some (y, t) \<Rightarrow> Some (x @ y, t))"

lemma str_cons_simps [simp]:
  "str_cons x None = None" "str_cons x (Some (y, t)) = Some (x @ y, t)"
  by (simp_all add: str_cons_def)

function str_body :: "string \<Rightarrow> (string \<times> string) option" where
  "str_body s =
     (case s of
        [] \<Rightarrow> None
      | c # cs \<Rightarrow>
          if c = CHR ''\"'' then Some ([], cs)
          else if c = CHR 92 then
            (case cs of
               [] \<Rightarrow> None
             | e # es \<Rightarrow>
                 if e = CHR ''u'' then
                   (case u_escape es of
                      None \<Rightarrow> None
                    | Some (x, t) \<Rightarrow> str_cons x (str_body t))
                 else
                   (case unescape e of
                      None \<Rightarrow> None
                    | Some x \<Rightarrow> str_cons [x] (str_body es)))
          else if byte c < 32 then None
          else if rune_len s = 0 then str_cons runeError (str_body cs)
          else str_cons (take (rune_len s) s) (str_body (drop (rune_len s) s)))"
  by pat_completeness auto
termination
  by (relation "measure length") (auto dest: u_escape_length)

declare str_body.simps [simp del]

lemma str_body_Nil [simp]: "str_body [] = None"
  by (simp add: str_body.simps)

lemma str_cons_Some: "str_cons x r = Some (y, t) \<longleftrightarrow> (\<exists>z. r = Some (z, t) \<and> y = x @ z)"
  by (cases r) (auto simp: str_cons_def)

lemma str_body_quote: "str_body (CHR ''\"'' # cs) = Some ([], cs)"
  by (subst str_body.simps) simp

lemma str_body_u:
  "str_body (CHR 92 # CHR ''u'' # es) =
     (case u_escape es of None \<Rightarrow> None | Some (x, t) \<Rightarrow> str_cons x (str_body t))"
  by (subst str_body.simps) simp

lemma str_body_esc:
  "e \<noteq> CHR ''u'' \<Longrightarrow> str_body (CHR 92 # e # es) =
     (case unescape e of None \<Rightarrow> None | Some x \<Rightarrow> str_cons [x] (str_body es))"
  by (subst str_body.simps) simp

lemma str_body_plain:
  "c \<noteq> CHR ''\"'' \<Longrightarrow> c \<noteq> CHR 92 \<Longrightarrow> str_body (c # cs) =
     (if byte c < 32 then None
      else if rune_len (c # cs) = 0 then str_cons runeError (str_body cs)
      else str_cons (take (rune_len (c # cs)) (c # cs))
             (str_body (drop (rune_len (c # cs)) (c # cs))))"
  by (subst str_body.simps) simp

lemmas str_body_eqs = str_body_quote str_body_u str_body_esc str_body_plain

lemma str_body_length: "str_body s = Some (x, t) \<Longrightarrow> length t < length s"
proof (induction s arbitrary: x rule: length_induct)
  case (1 s)
  then have IH: "str_body u = Some (y, t) \<Longrightarrow> length u < length s \<Longrightarrow> length t < length u" for u y
    by blast
  show ?case
  proof (cases s)
    case Nil
    with "1.prems" show ?thesis by simp
  next
    case (Cons c cs)
    consider "c = CHR ''\"''" | "c = CHR 92" "cs = []"
      | es where "c = CHR 92" "cs = CHR ''u'' # es"
      | e es where "c = CHR 92" "cs = e # es" "e \<noteq> CHR ''u''"
      | "c \<noteq> CHR ''\"''" "c \<noteq> CHR 92"
      by (metis list.exhaust)
    then show ?thesis
    proof cases
      case 1
      with "1.prems" Cons show ?thesis by (simp add: str_body_quote)
    next
      case 2
      with "1.prems" Cons show ?thesis by (simp add: str_body.simps [of "[CHR 92]"])
    next
      case (3 es)
      with "1.prems" Cons obtain a b y where
        "u_escape es = Some (a, b)" "str_body b = Some (y, t)"
        by (auto simp: str_body_u str_cons_Some split: option.splits)
      with 3 Cons IH [of b y] show ?thesis by (auto dest: u_escape_length)
    next
      case (4 e es)
      with "1.prems" Cons obtain y where "str_body es = Some (y, t)"
        by (auto simp: str_body_esc str_cons_Some split: option.splits)
      with 4 Cons IH [of es y] show ?thesis by auto
    next
      case 5
      with "1.prems" Cons IH show ?thesis
        by (fastforce simp: str_body_plain str_cons_Some split: if_splits)
    qed
  qed
qed

section \<open>Decoding what was encoded\<close>

lemma unescape_letters:
  "unescape (CHR ''\"'') = Some (CHR ''\"'')" "unescape (CHR 92) = Some (CHR 92)"
  "unescape (CHR ''b'') = Some (char_of (8 :: nat))" "unescape (CHR ''f'') = Some (char_of (12 :: nat))"
  "unescape (CHR ''n'') = Some (char_of (10 :: nat))" "unescape (CHR ''r'') = Some (char_of (13 :: nat))"
  "unescape (CHR ''t'') = Some (char_of (9 :: nat))"
  by (simp_all add: unescape_def)

lemma u_escape_byte:
  assumes "b < 128"
  shows "u_escape (CHR ''0'' # CHR ''0'' # hex_char (b div 16) # hex_char (b mod 16) # s) =
    Some ([char_of b], s)"
proof -
  have "hex_val (CHR ''0'') = Some 0" by (simp add: hex_val_def)
  with assms show ?thesis
    by (simp add: u_escape_def is_surrogate_def encode_rune_def)
qed

lemma byte_eq: "byte c = n \<Longrightarrow> char_of n = c"
  by (metis char_of_char)

lemma str_body_esc_ascii:
  assumes "byte c < 128"
  shows "str_body (esc_ascii c @ s) = str_cons [c] (str_body s)"
proof -
  consider "c = CHR ''\"'' \<or> c = CHR 92" | "byte c = 8" | "byte c = 12" | "byte c = 10"
    | "byte c = 13" | "byte c = 9"
    | "c \<noteq> CHR ''\"''" "c \<noteq> CHR 92" "byte c \<notin> {8, 12, 10, 13, 9}"
      "byte c < 32 \<or> c = CHR ''<'' \<or> c = CHR ''>'' \<or> c = CHR ''&''"
    | "c \<noteq> CHR ''\"''" "c \<noteq> CHR 92" "byte c \<notin> {8, 12, 10, 13, 9}"
      "\<not> (byte c < 32 \<or> c = CHR ''<'' \<or> c = CHR ''>'' \<or> c = CHR ''&'')"
    by blast
  then show ?thesis
  proof cases
    case 7
    then show ?thesis
      using u_escape_byte [OF assms, of s]
      by (simp add: esc_ascii_def str_body_u byte_eq)
  next
    case 8
    then show ?thesis
      using rune_len_ascii [OF assms, of s] by (simp add: esc_ascii_def str_body_plain)
  qed (auto simp: esc_ascii_def str_body_esc unescape_letters byte_eq)
qed

lemma str_body_bad:
  "str_body (CHR 92 # ''ufffd'' @ s) = str_cons runeError (str_body s)"
proof -
  have "u_escape (''fffd'' @ s) = Some (runeError, s)"
    by (simp add: u_escape_def is_surrogate_def hex_val_def encode_rune_error [symmetric])
  then show ?thesis by (simp add: str_body_u)
qed

lemma str_body_esc_rune:
  assumes "rune_len r = length r" and "r \<noteq> []" and "128 \<le> byte (hd r)"
  shows "str_body (esc_rune r @ s) = str_cons r (str_body s)"
proof -
  have seps: "str_body (CHR 92 # ''u2028'' @ s) = str_cons line_sep (str_body s)"
    "str_body (CHR 92 # ''u2029'' @ s) = str_cons para_sep (str_body s)"
    by (simp_all add: str_body_u u_escape_def is_surrogate_def hex_val_def encode_rune_def
        line_sep_def para_sep_def)
  obtain c cs where r: "r = c # cs" using assms(2) by (cases r) auto
  have c: "c \<noteq> CHR ''\"''" "c \<noteq> CHR 92" "\<not> byte c < 32"
    using assms(3) r by auto
  have "rune_len (r @ s) = length r"
    using rune_len_append [of r s] assms(1,2) by simp
  with c r have "str_body (r @ s) = str_cons r (str_body s)"
    by (simp add: str_body_plain)
  with seps show ?thesis by (simp add: esc_rune_def)
qed

lemma unquote_escape:
  "str_body (json_escape s @ CHR ''\"'' # t) = Some (to_valid_utf8 s, t)"
proof (induction s rule: json_escape.induct)
  case (1 s)
  show ?case
  proof (cases s)
    case Nil
    then show ?thesis
      by (simp add: json_escape.simps to_valid_utf8.simps str_body_quote)
  next
    case (Cons c cs)
    consider "byte c < 128" | "\<not> byte c < 128" "rune_len s = 0"
      | "\<not> byte c < 128" "rune_len s \<noteq> 0" by blast
    then show ?thesis
    proof cases
      case 1
      with "1.IH"(1) Cons show ?thesis
        by (simp add: json_escape.simps [of "c # cs"] to_valid_utf8.simps [of "c # cs"]
            str_body_esc_ascii rune_len_ascii)
    next
      case 2
      with "1.IH"(2) Cons str_body_bad [of "json_escape cs @ CHR ''\"'' # t"] show ?thesis
        by (simp add: json_escape.simps [of "c # cs"] to_valid_utf8.simps [of "c # cs"])
    next
      case 3
      let ?n = "rune_len s"
      have "rune_len (take ?n s) = length (take ?n s)"
        using rune_len_append [of s "[]"] rune_len_le [of s] 3 by simp
      moreover have "hd (take ?n s) = c" "take ?n s \<noteq> []" using 3 Cons by auto
      ultimately have "str_body (esc_rune (take ?n s) @ u) = str_cons (take ?n s) (str_body u)" for u
        using 3 by (intro str_body_esc_rune) auto
      with 3 "1.IH"(3) Cons show ?thesis
        by (simp add: json_escape.simps [of "c # cs"] to_valid_utf8.simps [of "c # cs"])
    qed
  qed
qed

end
