(* ===== verification/F64.thy ===== *)
theory F64
  imports Prelude "HOL-Library.Log_Nat"
begin

text \<open>
  Go's \<open>float64\<close> (and the rounding of \<open>float32\<close> constants). A finite value is the
  rational it denotes; an arithmetic operation is the exact rational operation followed by
  \<open>fl p emin\<close>, rounding to nearest, ties to even, to \<open>p\<close> significant bits with least
  exponent \<open>emin\<close> (gradual underflow). \<open>f64r\<close> is binary64. The sign of zero is not
  modelled: no modelled code divides by a zero or prints one.

  The locale \<open>rounding\<close> is what the services rely on: rounding is monotone, keeps the
  integers that fit the significand, is odd and idempotent. \<open>f64r\<close> interprets it.
\<close>

section \<open>Powers of two and the binary exponent\<close>

definition pow2 :: "int \<Rightarrow> rat" where
  "pow2 e = 2 powi e"

lemma pow2_pos [simp]: "0 < pow2 e"
  by (simp add: pow2_def)

lemma pow2_nonzero [simp]: "pow2 e \<noteq> 0"
  by (simp add: pow2_def)

lemma pow2_nonneg [simp]: "0 \<le> pow2 e"
  by (simp add: pow2_def)

lemma pow2_add: "pow2 (a + b) = pow2 a * pow2 b"
  by (simp add: pow2_def power_int_add)

lemma pow2_diff: "pow2 (a - b) = pow2 a / pow2 b"
  by (simp add: pow2_def power_int_diff)

lemma pow2_mono: "a \<le> b \<Longrightarrow> pow2 a \<le> pow2 b"
  by (simp add: pow2_def power_int_increasing)

lemma pow2_less_iff [simp]: "pow2 a < pow2 b \<longleftrightarrow> a < b"
  by (metis linorder_not_le order_le_less pow2_def pow2_mono power_int_strict_increasing
      one_less_numeral_iff semiring_norm(76))

lemma pow2_nat: "0 \<le> k \<Longrightarrow> pow2 k = of_int (2 ^ nat k)"
  by (simp add: pow2_def power_int_def)

lemma pow2_0 [simp]: "pow2 0 = 1"
  by (simp add: pow2_def)

text \<open>\<open>flog2 x\<close> is the exponent of the highest bit of a positive \<open>x\<close>.\<close>

definition flog2 :: "rat \<Rightarrow> int" where
  "flog2 x =
     (let (a, b) = quotient_of x;
          k = int (floorlog 2 (nat a)) - int (floorlog 2 (nat b))
      in if pow2 k \<le> x then k else k - 1)"

lemma floorlog2_pow2:
  assumes "0 < n"
  shows "pow2 (int (floorlog 2 n) - 1) \<le> of_nat n" and "of_nat n < pow2 (int (floorlog 2 n))"
proof -
  let ?l = "floorlog 2 n"
  have b: "2 ^ (?l - 1) \<le> n \<and> n < 2 ^ ?l"
    using assms by (intro floorlog_bounds) auto
  have "0 < ?l" using assms by (simp add: floorlog_def)
  then have "pow2 (int ?l - 1) = of_nat (2 ^ (?l - 1))"
    by (simp add: pow2_nat nat_diff_distrib)
  with b show "pow2 (int ?l - 1) \<le> of_nat n"
    by (metis of_nat_le_iff)
  have "pow2 (int ?l) = of_nat (2 ^ ?l)"
    by (simp add: pow2_nat)
  with b show "of_nat n < pow2 (int ?l)"
    by (metis of_nat_less_iff)
qed

lemma flog2_bounds:
  assumes "0 < x"
  shows "pow2 (flog2 x) \<le> x" and "x < pow2 (flog2 x + 1)"
proof -
  obtain a b where q: "quotient_of x = (a, b)" by (cases "quotient_of x")
  have b: "0 < b" using quotient_of_denom_pos [OF q] .
  have x: "x = of_int a / of_int b" using quotient_of_div [OF q] .
  with assms b have a: "0 < a" by (simp add: zero_less_divide_iff)
  let ?la = "int (floorlog 2 (nat a))" and ?lb = "int (floorlog 2 (nat b))"
  let ?A = "rat_of_int a" and ?B = "rat_of_int b"
  have A: "pow2 (?la - 1) \<le> ?A" "?A < pow2 ?la"
    using floorlog2_pow2 [of "nat a"] a by auto
  have B: "pow2 (?lb - 1) \<le> ?B" "?B < pow2 ?lb"
    using floorlog2_pow2 [of "nat b"] b by auto
  have "?A / ?B < pow2 ?la / pow2 (?lb - 1)"
    using A B a b by (intro frac_less) auto
  then have up: "x < pow2 (?la - ?lb + 1)"
    by (simp add: x algebra_simps flip: pow2_diff)
  have "pow2 (?la - 1) / pow2 ?lb \<le> ?A / ?B"
    using A B a b by (intro frac_le) auto
  then have lo: "pow2 (?la - ?lb - 1) \<le> x"
    by (simp add: x algebra_simps flip: pow2_diff)
  show "pow2 (flog2 x) \<le> x" and "x < pow2 (flog2 x + 1)"
    using up lo by (auto simp: flog2_def q Let_def)
qed

lemma flog2_mono: "0 < x \<Longrightarrow> x \<le> y \<Longrightarrow> flog2 x \<le> flog2 y"
proof -
  assume "0 < x" "x \<le> y"
  then have "pow2 (flog2 x) < pow2 (flog2 y + 1)"
    using flog2_bounds(1) [of x] flog2_bounds(2) [of y] by linarith
  then show ?thesis by simp
qed

lemma flog2_less: "0 < x \<Longrightarrow> x < pow2 k \<Longrightarrow> flog2 x < k"
  using flog2_bounds(1) [of x] by (metis order_le_less_trans pow2_less_iff)

section \<open>Rounding to an integer, ties to even\<close>

definition rne :: "rat \<Rightarrow> int" where
  "rne z =
     (let n = \<lfloor>z\<rfloor>; d = z - of_int n
      in if d < 1 / 2 then n else if 1 / 2 < d then n + 1 else if even n then n else n + 1)"

lemma rne_of_int [simp]: "rne (of_int n) = n"
  by (simp add: rne_def)

lemma rne_bounds: "\<lfloor>z\<rfloor> \<le> rne z" "rne z \<le> \<lfloor>z\<rfloor> + 1"
  by (auto simp: rne_def Let_def)

lemma rne_mono: "x \<le> y \<Longrightarrow> rne x \<le> rne y"
proof -
  assume le: "x \<le> y"
  then have "\<lfloor>x\<rfloor> \<le> \<lfloor>y\<rfloor>" by (rule floor_mono)
  then consider "\<lfloor>x\<rfloor> = \<lfloor>y\<rfloor>" | "\<lfloor>x\<rfloor> + 1 \<le> \<lfloor>y\<rfloor>" by linarith
  then show ?thesis
  proof cases
    case 1
    with le show ?thesis by (auto simp: rne_def Let_def)
  next
    case 2
    with rne_bounds(2) [of x] rne_bounds(1) [of y] show ?thesis by linarith
  qed
qed

lemma rne_le_int: "z \<le> of_int n \<Longrightarrow> rne z \<le> n"
  using rne_mono [of z "of_int n"] by simp

lemma rne_ge_int: "of_int n \<le> z \<Longrightarrow> n \<le> rne z"
  using rne_mono [of "of_int n" z] by simp

lemma rne_minus [simp]: "rne (- z) = - rne z"
proof (cases "z = of_int \<lfloor>z\<rfloor>")
  case True
  then show ?thesis by (metis of_int_minus rne_of_int)
next
  case False
  define n where "n = \<lfloor>z\<rfloor>"
  have n: "of_int n < z" "z < of_int n + 1"
    using False of_int_floor_le [of z] floor_correct [of z] unfolding n_def by linarith+
  then have "\<lfloor>- z\<rfloor> = - n - 1" by linarith
  with n show ?thesis
    unfolding rne_def Let_def n_def [symmetric] by auto
qed

lemma rne_error: "\<bar>of_int (rne z) - z\<bar> \<le> 1 / 2"
proof -
  define n where "n = \<lfloor>z\<rfloor>"
  have "of_int n \<le> z" "z < of_int n + 1"
    using floor_correct [of z] by (auto simp: n_def)
  then show ?thesis
    unfolding rne_def Let_def n_def [symmetric] by auto
qed

section \<open>Rounding to \<open>p\<close> bits\<close>

definition fexp :: "int \<Rightarrow> int \<Rightarrow> rat \<Rightarrow> int" where
  "fexp p emin x = max (flog2 x - (p - 1)) emin"

definition fl :: "int \<Rightarrow> int \<Rightarrow> rat \<Rightarrow> rat" where
  "fl p emin x =
     (if x = 0 then 0
      else let e = fexp p emin \<bar>x\<bar> in of_int (rne (x / pow2 e)) * pow2 e)"

lemma fl_0 [simp]: "fl p emin 0 = 0"
  by (simp add: fl_def)

lemma fl_minus [simp]: "fl p emin (- x) = - fl p emin x"
  by (simp add: fl_def Let_def)

lemma fexp_mono: "0 < x \<Longrightarrow> x \<le> y \<Longrightarrow> fexp p emin x \<le> fexp p emin y"
  using flog2_mono [of x y] by (simp add: fexp_def)

text \<open>A multiple of the ulp bounds the rounded value as it bounds the argument.\<close>

lemma scale_int:
  assumes "e \<le> k"
  obtains m where "of_int n * pow2 k = of_int m * pow2 e"
proof
  have "pow2 k = pow2 (k - e) * pow2 e"
    using pow2_add [of "k - e" e] by simp
  with assms show "of_int n * pow2 k = of_int (n * 2 ^ nat (k - e)) * pow2 e"
    by (simp add: pow2_nat)
qed

lemma fl_le_grid:
  assumes "0 < x" and "fexp p emin x \<le> k" and "x \<le> of_int n * pow2 k"
  shows "fl p emin x \<le> of_int n * pow2 k"
proof -
  let ?e = "fexp p emin x"
  obtain m where m: "of_int n * pow2 k = of_int m * pow2 ?e"
    using assms(2) by (rule scale_int)
  with assms(3) have "rne (x / pow2 ?e) \<le> m"
    by (intro rne_le_int) (simp add: pos_divide_le_eq)
  then have "rat_of_int (rne (x / pow2 ?e)) * pow2 ?e \<le> of_int m * pow2 ?e"
    by (intro mult_right_mono) auto
  with assms(1) m show ?thesis by (simp add: fl_def Let_def)
qed

lemma fl_ge_grid:
  assumes "0 < x" and "fexp p emin x \<le> k" and "of_int n * pow2 k \<le> x"
  shows "of_int n * pow2 k \<le> fl p emin x"
proof -
  let ?e = "fexp p emin x"
  obtain m where m: "of_int n * pow2 k = of_int m * pow2 ?e"
    using assms(2) by (rule scale_int)
  with assms(3) have "m \<le> rne (x / pow2 ?e)"
    by (intro rne_ge_int) (simp add: pos_le_divide_eq)
  then have "of_int m * pow2 ?e \<le> rat_of_int (rne (x / pow2 ?e)) * pow2 ?e"
    by (intro mult_right_mono) auto
  with assms(1) m show ?thesis by (simp add: fl_def Let_def)
qed

lemma fl_nonneg: "0 \<le> x \<Longrightarrow> 0 \<le> fl p emin x"
  using fl_ge_grid [of x p emin "fexp p emin x" 0] by (cases "x = 0") auto

lemma fl_mono_pos:
  assumes "1 \<le> p" and "0 < x" and "x \<le> y"
  shows "fl p emin x \<le> fl p emin y"
proof (cases "fexp p emin x = fexp p emin y")
  case True
  have "x / pow2 (fexp p emin y) \<le> y / pow2 (fexp p emin y)"
    using assms by (intro divide_right_mono) auto
  from rne_mono [OF this] assms True show ?thesis
    by (simp add: fl_def Let_def)
next
  case False
  define k where "k = flog2 y"
  have "fexp p emin x < fexp p emin y"
    using False fexp_mono [OF assms(2,3), of p emin] by simp
  then have e: "fexp p emin x \<le> k" "fexp p emin y \<le> k" "flog2 x < k"
    using assms(1) by (auto simp: fexp_def k_def)
  have t: "pow2 k \<le> y" using flog2_bounds(1) [of y] assms by (simp add: k_def)
  have "x < pow2 (flog2 x + 1)" using flog2_bounds(2) assms(2) .
  also have "\<dots> \<le> pow2 k" using e(3) by (intro pow2_mono) simp
  finally have s: "x \<le> pow2 k" by simp
  have "fl p emin x \<le> of_int 1 * pow2 k"
    using assms(2) e(1) s by (intro fl_le_grid) auto
  also have "\<dots> \<le> fl p emin y"
    using assms e(2) t by (intro fl_ge_grid) auto
  finally show ?thesis .
qed

lemma fl_mono: "1 \<le> p \<Longrightarrow> x \<le> y \<Longrightarrow> fl p emin x \<le> fl p emin y"
proof -
  assume p: "1 \<le> p" and le: "x \<le> y"
  consider "0 < x" | "x \<le> 0" "0 \<le> y" | "y < 0" by linarith
  then show ?thesis
  proof cases
    case 1
    with p le show ?thesis by (intro fl_mono_pos)
  next
    case 2
    with fl_nonneg [of "- x" p emin] fl_nonneg [of y p emin] show ?thesis by simp
  next
    case 3
    with fl_mono_pos [OF p, of "- y" "- x" emin] le show ?thesis by simp
  qed
qed

text \<open>A value with at most \<open>p\<close> significant bits is kept.\<close>

lemma fl_exact_pos:
  assumes "0 < n" and "of_int n < pow2 p" and "emin \<le> k"
  shows "fl p emin (of_int n * pow2 k) = of_int n * pow2 k"
proof -
  let ?x = "of_int n * pow2 k"
  have pos: "0 < ?x" using assms(1) by simp
  have "?x < pow2 (p + k)" using assms(2) by (simp add: pow2_add)
  with pos have "flog2 ?x < p + k" by (rule flog2_less)
  with assms(3) have "fexp p emin ?x \<le> k" by (simp add: fexp_def)
  with pos show ?thesis
    by (intro antisym fl_le_grid fl_ge_grid) auto
qed

lemma fl_exact:
  assumes "\<bar>of_int n\<bar> \<le> pow2 p" and "emin \<le> k" and "1 \<le> p"
  shows "fl p emin (of_int n * pow2 k) = of_int n * pow2 k"
proof -
  have le: "fl p emin (of_int m * pow2 k) = of_int m * pow2 k"
    if m: "0 < m" "of_int m \<le> pow2 p" for m
  proof (cases "of_int m = pow2 p")
    case True
    have "of_int m * pow2 k = of_int 1 * pow2 (p + k)"
      using True by (simp add: pow2_add)
    moreover have "(1 :: rat) < pow2 p"
      using assms(3) pow2_less_iff [of 0 p] by simp
    ultimately show ?thesis
      using fl_exact_pos [of 1 p emin "p + k"] assms by simp
  next
    case False
    with m assms(2) show ?thesis by (intro fl_exact_pos) auto
  qed
  consider "n = 0" | "0 < n" | "n < 0" by linarith
  then show ?thesis
  proof cases
    case 1 then show ?thesis by simp
  next
    case 2 with assms(1) show ?thesis by (intro le) auto
  next
    case 3
    with assms(1) le [of "- n"] show ?thesis by simp
  qed
qed

lemma fl_grid_form:
  assumes "1 \<le> p"
  shows "\<exists>n k. fl p emin x = of_int n * pow2 k \<and> \<bar>of_int n\<bar> \<le> pow2 p \<and> emin \<le> k"
proof (cases "x = 0")
  case True
  then show ?thesis by (intro exI [of _ 0] exI [of _ emin]) simp
next
  case False
  let ?e = "fexp p emin \<bar>x\<bar>"
  have up: "\<bar>x\<bar> \<le> pow2 p * pow2 ?e"
  proof -
    have "\<bar>x\<bar> < pow2 (flog2 \<bar>x\<bar> + 1)" using False by (intro flog2_bounds) simp
    also have "\<dots> \<le> pow2 (p + ?e)" by (intro pow2_mono) (simp add: fexp_def)
    finally show ?thesis by (simp add: pow2_add)
  qed
  have int: "pow2 p = of_int (2 ^ nat p)" using assms by (intro pow2_nat) simp
  have "\<bar>x / pow2 ?e\<bar> \<le> of_int (2 ^ nat p)"
    using up by (simp add: pos_divide_le_eq abs_divide int)
  then have "x / pow2 ?e \<le> of_int (2 ^ nat p)" and "of_int (- (2 ^ nat p)) \<le> x / pow2 ?e"
    unfolding of_int_minus by linarith+
  then have "rne (x / pow2 ?e) \<le> 2 ^ nat p" and "- (2 ^ nat p) \<le> rne (x / pow2 ?e)"
    by (metis rne_le_int, metis rne_ge_int)
  then have "\<bar>rne (x / pow2 ?e)\<bar> \<le> 2 ^ nat p" by linarith
  then have "\<bar>rat_of_int (rne (x / pow2 ?e))\<bar> \<le> pow2 p"
    unfolding int of_int_abs [symmetric] of_int_le_iff .
  with False show ?thesis
    by (intro exI [of _ "rne (x / pow2 ?e)"] exI [of _ ?e])
      (simp add: fl_def Let_def fexp_def)
qed

lemma fl_idem: "1 \<le> p \<Longrightarrow> fl p emin (fl p emin x) = fl p emin x"
  using fl_grid_form [of p emin x] by (auto simp: fl_exact)

section \<open>The contract of rounding\<close>

locale rounding =
  fixes rd :: "rat \<Rightarrow> rat"
  assumes rd_mono: "x \<le> y \<Longrightarrow> rd x \<le> rd y"
    and rd_int: "\<bar>n\<bar> \<le> 2 ^ 53 \<Longrightarrow> rd (of_int n) = of_int n"
    and rd_minus: "rd (- x) = - rd x"
    and rd_idem: "rd (rd x) = rd x"
begin

lemma rd_0: "rd 0 = 0"
  using rd_int [of 0] by simp

lemma rd_1: "rd 1 = 1"
  using rd_int [of 1] by simp

lemma rd_nonneg: "0 \<le> x \<Longrightarrow> 0 \<le> rd x"
  using rd_mono [of 0 x] by (simp add: rd_0)

lemma rd_le_1: "x \<le> 1 \<Longrightarrow> rd x \<le> 1"
  using rd_mono [of x 1] by (simp add: rd_1)

lemma rd_le_fixed: "x \<le> y \<Longrightarrow> rd y = y \<Longrightarrow> rd x \<le> y"
  using rd_mono [of x y] by simp

lemma rd_ge_fixed: "y \<le> x \<Longrightarrow> rd y = y \<Longrightarrow> y \<le> rd x"
  using rd_mono [of y x] by simp

text \<open>A ratio of two counts with the numerator no larger is a rate between 0 and 1.\<close>

lemma rd_rate:
  assumes "0 \<le> x" and "x \<le> y"
  shows "0 \<le> rd (rd x / rd y)" and "rd (rd x / rd y) \<le> 1"
proof -
  have "0 \<le> rd x" "rd x \<le> rd y" using assms by (auto intro: rd_nonneg rd_mono)
  then have "0 \<le> rd x / rd y" "rd x / rd y \<le> 1"
    by (auto simp: divide_le_eq_1)
  then show "0 \<le> rd (rd x / rd y)" and "rd (rd x / rd y) \<le> 1"
    by (auto intro: rd_nonneg rd_le_1)
qed

text \<open>Scaling by a factor between 0 and 1 does not increase a representable value.\<close>

lemma rd_shrink:
  assumes "0 \<le> x" and "rd x = x" and "0 \<le> c" and "c \<le> 1"
  shows "0 \<le> rd (x * c)" and "rd (x * c) \<le> x"
proof -
  have "0 \<le> x * c" "x * c \<le> x"
    using assms by (auto intro: mult_left_le)
  with assms(2) show "0 \<le> rd (x * c)" and "rd (x * c) \<le> x"
    by (auto intro: rd_nonneg rd_le_fixed)
qed

end

section \<open>binary64\<close>

definition f64r :: "rat \<Rightarrow> rat" where
  "f64r x = fl 53 (- 1074) x"

text \<open>\<open>float32\<close>, the type of \<open>rng.Float32()\<close> and of the constants compared with it.\<close>

definition f32r :: "rat \<Rightarrow> rat" where
  "f32r x = fl 24 (- 149) x"

lemma pow2_53: "pow2 53 = 2 ^ 53"
  by (simp add: pow2_nat)

interpretation b64: rounding f64r
proof
  fix x y :: rat and n :: int
  show "x \<le> y \<Longrightarrow> f64r x \<le> f64r y"
    by (simp add: f64r_def fl_mono)
  show "\<bar>n\<bar> \<le> 2 ^ 53 \<Longrightarrow> f64r (of_int n) = of_int n"
  proof -
    assume "\<bar>n\<bar> \<le> 2 ^ 53"
    then have "\<bar>rat_of_int n\<bar> \<le> of_int (2 ^ 53)"
      unfolding of_int_abs [symmetric] of_int_le_iff .
    then have "\<bar>rat_of_int n\<bar> \<le> pow2 53"
      by (simp add: pow2_nat)
    then show ?thesis
      using fl_exact [of n 53 "- 1074" 0] by (simp add: f64r_def)
  qed
  show "f64r (- x) = - f64r x"
    by (simp add: f64r_def)
  show "f64r (f64r x) = f64r x"
    by (simp add: f64r_def fl_idem)
qed

text \<open>
  A \<open>float64\<close>: finite, infinite (the flag is the sign) or not a number. \<open>to_f64\<close> rounds
  an exact result, overflowing to an infinity.
\<close>

datatype f64 = Fin rat | Inf bool | NaN

definition f64_limit :: rat where
  "f64_limit = 2 ^ 1024"

definition to_f64 :: "rat \<Rightarrow> f64" where
  "to_f64 x = (let r = f64r x in if \<bar>r\<bar> < f64_limit then Fin r else Inf (r < 0))"

definition f64_finite :: "f64 \<Rightarrow> bool" where
  "f64_finite a \<longleftrightarrow> (case a of Fin r \<Rightarrow> f64r r = r \<and> \<bar>r\<bar> < f64_limit | _ \<Rightarrow> False)"

fun f64_add :: "f64 \<Rightarrow> f64 \<Rightarrow> f64" where
  "f64_add (Fin a) (Fin b) = to_f64 (a + b)"
| "f64_add NaN b = NaN"
| "f64_add a NaN = NaN"
| "f64_add (Inf s) (Inf t) = (if s = t then Inf s else NaN)"
| "f64_add (Inf s) (Fin b) = Inf s"
| "f64_add (Fin a) (Inf t) = Inf t"

fun f64_neg :: "f64 \<Rightarrow> f64" where
  "f64_neg (Fin a) = Fin (- a)"
| "f64_neg (Inf s) = Inf (\<not> s)"
| "f64_neg NaN = NaN"

definition f64_sub :: "f64 \<Rightarrow> f64 \<Rightarrow> f64" where
  "f64_sub a b = f64_add a (f64_neg b)"

fun f64_mul :: "f64 \<Rightarrow> f64 \<Rightarrow> f64" where
  "f64_mul (Fin a) (Fin b) = to_f64 (a * b)"
| "f64_mul NaN b = NaN"
| "f64_mul a NaN = NaN"
| "f64_mul (Inf s) (Inf t) = Inf (s \<noteq> t)"
| "f64_mul (Inf s) (Fin b) = (if b = 0 then NaN else Inf (s \<noteq> (b < 0)))"
| "f64_mul (Fin a) (Inf t) = (if a = 0 then NaN else Inf (t \<noteq> (a < 0)))"

fun f64_div :: "f64 \<Rightarrow> f64 \<Rightarrow> f64" where
  "f64_div (Fin a) (Fin b) =
     (if b = 0 then if a = 0 then NaN else Inf (a < 0) else to_f64 (a / b))"
| "f64_div NaN b = NaN"
| "f64_div a NaN = NaN"
| "f64_div (Inf s) (Inf t) = NaN"
| "f64_div (Inf s) (Fin b) = Inf (s \<noteq> (b < 0))"
| "f64_div (Fin a) (Inf t) = Fin 0"

text \<open>Go's \<open><\<close> and \<open>></\<close>: false when an operand is not a number.\<close>

fun f64_less :: "f64 \<Rightarrow> f64 \<Rightarrow> bool" where
  "f64_less (Fin a) (Fin b) = (a < b)"
| "f64_less NaN b = False"
| "f64_less a NaN = False"
| "f64_less (Inf s) (Inf t) = (s \<and> \<not> t)"
| "f64_less (Inf s) (Fin b) = s"
| "f64_less (Fin a) (Inf t) = (\<not> t)"

definition f64_of_int :: "int \<Rightarrow> f64" where
  "f64_of_int i = to_f64 (of_int i)"

lemma f64r_limit: "\<bar>x\<bar> \<le> 2 ^ 1000 \<Longrightarrow> \<bar>f64r x\<bar> < f64_limit"
proof -
  assume x: "\<bar>x\<bar> \<le> 2 ^ 1000"
  have e: "(2 :: rat) ^ 1000 = of_int 1 * pow2 1000" by (simp add: pow2_nat)
  have r: "f64r (2 ^ 1000) = 2 ^ 1000"
    unfolding e f64r_def by (rule fl_exact) (auto simp: pow2_53)
  from x have "x \<le> 2 ^ 1000" and "- x \<le> 2 ^ 1000" by (auto simp: abs_le_iff)
  then have "f64r x \<le> 2 ^ 1000" and "- f64r x \<le> 2 ^ 1000"
    using b64.rd_le_fixed [OF _ r] by (auto simp flip: b64.rd_minus)
  then have "\<bar>f64r x\<bar> \<le> 2 ^ 1000" by (simp add: abs_le_iff)
  also have "(2 :: rat) ^ 1000 < f64_limit"
    unfolding f64_limit_def by (rule power_strict_increasing) auto
  finally show ?thesis .
qed

lemma to_f64_Fin: "\<bar>x\<bar> \<le> 2 ^ 1000 \<Longrightarrow> to_f64 x = Fin (f64r x)"
  by (simp add: to_f64_def Let_def f64r_limit)

lemma f64_finite_to_f64: "to_f64 x = Fin r \<Longrightarrow> f64_finite (Fin r)"
  by (auto simp: to_f64_def Let_def f64_finite_def b64.rd_idem split: if_splits)

end
