(* ===== verification/Json.thy ===== *)
theory Json
  imports Utf8 F64 "HOL-Library.Monad_Syntax"
begin

text \<open>
  \<open>encoding/json\<close> as the services use it: JSON values, the compact printer of \<open>json.Marshal\<close>
  (\<open>json_print\<close>), the scanner and parser of \<open>json.Unmarshal\<close> (\<open>json_parse\<close>) and of
  \<open>Decoder.Decode\<close>, which reads one value and ignores what follows (\<open>json_decode\<close>), and the
  assignment of an object's members to the fields of a struct (\<open>decode_struct\<close>: exact or
  case-folded names, later members win, \<open>null\<close> keeps the old value, a member of the wrong type
  fails the call). The parser carries fuel; \<open>json_fuel\<close> of the input is always enough
  (\<open>pval_fuel\<close>), and parsing what was printed gives the value back (\<open>json_roundtrip\<close>).
\<close>

section \<open>Values\<close>

text \<open>A number is kept as its literal: sign, integer digits, fraction digits, exponent text.\<close>

datatype numlit = NumLit (nl_neg: bool) (nl_int: string) (nl_frac: string) (nl_exp: string)

datatype json =
    JNull
  | JBool bool
  | JNum numlit
  | JStr string
  | JArr "json list"
  | JObj "(string \<times> json) list"

section \<open>Numbers\<close>

definition lex_digits :: "string \<Rightarrow> string \<times> string" where
  "lex_digits s = (takeWhile is_digit s, dropWhile is_digit s)"

definition lex_sign :: "string \<Rightarrow> bool \<times> string" where
  "lex_sign s = (case s of [] \<Rightarrow> (False, s)
     | c # cs \<Rightarrow> if c = CHR ''-'' then (True, cs) else (False, s))"

definition lex_int :: "string \<Rightarrow> (string \<times> string) option" where
  "lex_int s = (case s of [] \<Rightarrow> None
     | c # cs \<Rightarrow>
         if c = CHR ''0'' then Some ([c], cs)
         else if is_digit c then Some (lex_digits s)
         else None)"

definition lex_frac :: "string \<Rightarrow> (string \<times> string) option" where
  "lex_frac s = (case s of [] \<Rightarrow> Some ([], s)
     | c # cs \<Rightarrow>
         if c = CHR ''.''
         then (let (ds, t) = lex_digits cs in if ds = [] then None else Some (ds, t))
         else Some ([], s))"

definition lex_exp_sign :: "string \<Rightarrow> string \<times> string" where
  "lex_exp_sign s = (case s of [] \<Rightarrow> ([], s)
     | c # cs \<Rightarrow> if c = CHR ''+'' \<or> c = CHR ''-'' then ([c], cs) else ([], s))"

definition lex_exp :: "string \<Rightarrow> (string \<times> string) option" where
  "lex_exp s = (case s of [] \<Rightarrow> Some ([], s)
     | c # cs \<Rightarrow>
         if c = CHR ''e'' \<or> c = CHR ''E''
         then (let (sg, u) = lex_exp_sign cs; (ds, t) = lex_digits u
               in if ds = [] then None else Some (c # sg @ ds, t))
         else Some ([], s))"

definition lex_number :: "string \<Rightarrow> (numlit \<times> string) option" where
  "lex_number s =
     (let (neg, s1) = lex_sign s in
      case lex_int s1 of None \<Rightarrow> None | Some (i, s2) \<Rightarrow>
      (case lex_frac s2 of None \<Rightarrow> None | Some (f, s3) \<Rightarrow>
      (case lex_exp s3 of None \<Rightarrow> None | Some (e, s4) \<Rightarrow> Some (NumLit neg i f e, s4))))"

definition numlit_str :: "numlit \<Rightarrow> string" where
  "numlit_str n =
     (if nl_neg n then ''-'' else []) @ nl_int n @
     (if nl_frac n = [] then [] else CHR ''.'' # nl_frac n) @ nl_exp n"

definition numlit_ok :: "numlit \<Rightarrow> bool" where
  "numlit_ok n \<longleftrightarrow> lex_number (numlit_str n) = Some (n, [])"

text \<open>What may follow a number without becoming part of it.\<close>

definition num_stop :: "string \<Rightarrow> bool" where
  "num_stop t \<longleftrightarrow> (t = [] \<or> hd t = CHR '','' \<or> hd t = CHR '']'' \<or> hd t = CHR ''}'' \<or> hd t = CHR 10 \<or> hd t = CHR 13)"

lemma num_stop_cases:
  "num_stop t \<Longrightarrow>
   t = [] \<or> (\<exists>c u. t = c # u \<and> \<not> is_digit c \<and> c \<notin> {CHR ''.'', CHR ''e'', CHR ''E'', CHR ''+'', CHR ''-'', CHR ''0''})"
  by (cases t) (auto simp: num_stop_def is_digit_def)

lemma lex_digits_append:
  "num_stop t \<Longrightarrow> lex_digits (s @ t) = (fst (lex_digits s), snd (lex_digits s) @ t)"
  by (induction s) (auto simp: lex_digits_def dest!: num_stop_cases)

lemma lex_digits_length: "length (snd (lex_digits s)) \<le> length s"
  by (simp add: lex_digits_def length_dropWhile_le)

lemma lex_number_append:
  assumes t: "num_stop t" and s: "lex_number s = Some (n, u)"
  shows "lex_number (s @ t) = Some (n, u @ t)"
proof -
  have sign: "lex_sign (x @ t) = (fst (lex_sign x), snd (lex_sign x) @ t)" for x
    using num_stop_cases [OF t] by (cases x) (auto simp: lex_sign_def)
  have int: "lex_int (x @ t) = Some (a, b @ t)" if "lex_int x = Some (a, b)" for x a b
    using that lex_digits_append [OF t, of x]
    by (cases x) (auto simp: lex_int_def split: if_splits)
  have frac: "lex_frac (x @ t) = Some (a, b @ t)" if "lex_frac x = Some (a, b)" for x a b
    using that lex_digits_append [OF t, of "tl x"] num_stop_cases [OF t]
    by (cases x) (auto simp: lex_frac_def split: if_splits prod.splits)
  have esign: "lex_exp_sign (x @ t) = (fst (lex_exp_sign x), snd (lex_exp_sign x) @ t)" for x
    using num_stop_cases [OF t] by (cases x) (auto simp: lex_exp_sign_def)
  have ex: "lex_exp (x @ t) = Some (a, b @ t)" if "lex_exp x = Some (a, b)" for x a b
    using that num_stop_cases [OF t]
    by (cases x) (auto simp: lex_exp_def esign lex_digits_append [OF t] split: if_splits prod.splits)
  obtain neg s1 where 1: "lex_sign s = (neg, s1)" by (cases "lex_sign s")
  with s obtain i s2 f s3 e s4 where
    "lex_int s1 = Some (i, s2)" "lex_frac s2 = Some (f, s3)" "lex_exp s3 = Some (e, s4)"
    "n = NumLit neg i f e" "u = s4"
    by (auto simp: lex_number_def split: option.splits)
  with 1 show ?thesis
    by (simp add: lex_number_def sign int frac ex)
qed

lemma lex_number_length: "lex_number s = Some (n, t) \<Longrightarrow> length t < length s"
proof -
  assume a: "lex_number s = Some (n, t)"
  have sign: "length (snd (lex_sign x)) \<le> length x" for x
    by (cases x) (auto simp: lex_sign_def)
  have int: "length b < length x" if "lex_int x = Some (a, b)" for x a b
  proof (cases x)
    case (Cons c cs)
    have "length (dropWhile is_digit cs) < Suc (length cs)"
      by (simp add: le_imp_less_Suc length_dropWhile_le)
    with that Cons show ?thesis by (auto simp: lex_int_def lex_digits_def split: if_splits)
  qed (use that in \<open>simp add: lex_int_def\<close>)
  have frac: "length b \<le> length x" if "lex_frac x = Some (a, b)" for x a b
    using that lex_digits_length [of "tl x"]
    by (cases x) (auto simp: lex_frac_def split: if_splits prod.splits)
  have esign: "length (snd (lex_exp_sign x)) \<le> length x" for x
    by (cases x) (auto simp: lex_exp_sign_def)
  have ex: "length b \<le> length x" if "lex_exp x = Some (a, b)" for x a b
    using that esign [of "tl x"] lex_digits_length [of "snd (lex_exp_sign (tl x))"]
    by (cases x) (auto simp: lex_exp_def split: if_splits prod.splits)
  from a obtain i s2 f s3 e where
    "lex_int (snd (lex_sign s)) = Some (i, s2)" "lex_frac s2 = Some (f, s3)" "lex_exp s3 = Some (e, t)"
    by (auto simp: lex_number_def split: option.splits prod.splits)
  then show ?thesis
    using sign [of s] int frac ex by (meson le_less_trans less_le_trans)
qed

section \<open>Parser\<close>

definition is_space :: "char \<Rightarrow> bool" where
  "is_space c \<longleftrightarrow> byte c = 32 \<or> byte c = 9 \<or> byte c = 10 \<or> byte c = 13"

definition skip_ws :: "string \<Rightarrow> string" where
  "skip_ws s = dropWhile is_space s"

definition strip_prefix :: "string \<Rightarrow> string \<Rightarrow> string option" where
  "strip_prefix p s = (if take (length p) s = p then Some (drop (length p) s) else None)"

text \<open>
  The three readers, each over the readers it calls: a value, the elements of an array after
  its opening bracket, the members of an object after its opening brace. \<open>d\<close> is how many
  more arrays and objects may be opened (\<open>maxNestingDepth\<close> is 10000).
\<close>

type_synonym 'a reader = "nat \<Rightarrow> string \<Rightarrow> ('a \<times> string) option"

definition read_literal :: "string \<Rightarrow> json \<Rightarrow> string \<Rightarrow> (json \<times> string) option" where
  "read_literal w v s = map_option (\<lambda>t. (v, t)) (strip_prefix w s)"

definition read_container ::
    "'a reader \<Rightarrow> char \<Rightarrow> 'a \<Rightarrow> ('a \<Rightarrow> json) \<Rightarrow> nat \<Rightarrow> string \<Rightarrow> (json \<times> string) option" where
  "read_container rdr close none con d s =
     (if d = 0 then None
      else case strip_prefix [close] (skip_ws s) of
             Some t \<Rightarrow> Some (con none, t)
           | None \<Rightarrow> map_option (map_prod con id) (rdr (d - 1) s))"

definition value_step :: "json list reader \<Rightarrow> (string \<times> json) list reader \<Rightarrow> json reader" where
  "value_step elems members d s =
     (case skip_ws s of
        [] \<Rightarrow> None
      | c # cs \<Rightarrow>
          if c = CHR ''\"'' then map_option (map_prod JStr id) (str_body cs)
          else if c = CHR ''{'' then read_container members (CHR ''}'') [] JObj d cs
          else if c = CHR ''['' then read_container elems (CHR '']'') [] JArr d cs
          else if c = CHR ''t'' then read_literal ''rue'' (JBool True) cs
          else if c = CHR ''f'' then read_literal ''alse'' (JBool False) cs
          else if c = CHR ''n'' then read_literal ''ull'' JNull cs
          else map_option (map_prod JNum id) (lex_number (c # cs)))"

text \<open>After an element or a member: the closing character, or a comma and more.\<close>

definition list_tail ::
    "'a list reader \<Rightarrow> char \<Rightarrow> 'a \<Rightarrow> nat \<Rightarrow> string \<Rightarrow> ('a list \<times> string) option" where
  "list_tail more close x d s =
     (case skip_ws s of
        [] \<Rightarrow> None
      | c # cs \<Rightarrow>
          if c = close then Some ([x], cs)
          else if c = CHR '','' then map_option (map_prod (Cons x) id) (more d cs)
          else None)"

definition elems_step :: "json reader \<Rightarrow> json list reader \<Rightarrow> json list reader" where
  "elems_step val more d s =
     (case val d s of None \<Rightarrow> None | Some (v, t) \<Rightarrow> list_tail more (CHR '']'') v d t)"

definition read_key :: "string \<Rightarrow> (string \<times> string) option" where
  "read_key s =
     (case strip_prefix [CHR ''\"''] (skip_ws s) of None \<Rightarrow> None | Some s1 \<Rightarrow>
     (case str_body s1 of None \<Rightarrow> None | Some (k, s2) \<Rightarrow>
     (case strip_prefix [CHR '':''] (skip_ws s2) of None \<Rightarrow> None | Some s3 \<Rightarrow> Some (k, s3))))"

definition members_step ::
    "json reader \<Rightarrow> (string \<times> json) list reader \<Rightarrow> (string \<times> json) list reader" where
  "members_step val more d s =
     (case read_key s of None \<Rightarrow> None | Some (k, s1) \<Rightarrow>
     (case val d s1 of None \<Rightarrow> None | Some (v, s2) \<Rightarrow> list_tail more (CHR ''}'') (k, v) d s2))"

fun pval :: "nat \<Rightarrow> json reader"
and pelems :: "nat \<Rightarrow> json list reader"
and pmembers :: "nat \<Rightarrow> (string \<times> json) list reader" where
  "pval 0 d s = None"
| "pval (Suc f) d s = value_step (pelems f) (pmembers f) d s"
| "pelems 0 d s = None"
| "pelems (Suc f) d s = elems_step (pval f) (pelems f) d s"
| "pmembers 0 d s = None"
| "pmembers (Suc f) d s = members_step (pval f) (pmembers f) d s"

definition maxNestingDepth :: nat where
  "maxNestingDepth = 10000"

definition json_fuel :: "string \<Rightarrow> nat" where
  "json_fuel s = 2 * length s + 2"

text \<open>\<open>json.Unmarshal\<close> checks that nothing but space follows the value.\<close>

definition json_parse :: "string \<Rightarrow> json option" where
  "json_parse s =
     (case pval (json_fuel s) maxNestingDepth s of
        None \<Rightarrow> None
      | Some (v, t) \<Rightarrow> if skip_ws t = [] then Some v else None)"

text \<open>\<open>Decoder.Decode\<close> reads one value.\<close>

definition json_decode :: "string \<Rightarrow> json option" where
  "json_decode s = map_option fst (pval (json_fuel s) maxNestingDepth s)"

lemma skip_ws_length: "length (skip_ws s) \<le> length s"
  by (simp add: skip_ws_def length_dropWhile_le)

lemma strip_prefix_length: "strip_prefix p s = Some t \<Longrightarrow> length s = length p + length t"
proof -
  assume "strip_prefix p s = Some t"
  then have t: "take (length p) s = p" "t = drop (length p) s"
    by (auto simp: strip_prefix_def split: if_splits)
  from arg_cong [OF t(1), of length] have "length p \<le> length s" by simp
  with t(2) show ?thesis by simp
qed

lemma strip_prefix_append [simp]: "strip_prefix p (p @ s) = Some s"
  by (simp add: strip_prefix_def)

lemma strip_prefix_one [simp]: "strip_prefix [c] (x # s) = (if x = c then Some s else None)"
  by (simp add: strip_prefix_def)

lemma strip_prefix_one_Nil [simp]: "strip_prefix [c] [] = None"
  by (simp add: strip_prefix_def)

section \<open>Every reader consumes input, and the fuel is enough\<close>

lemma read_key_length: "read_key s = Some (k, t) \<Longrightarrow> length t < length s"
proof -
  assume "read_key s = Some (k, t)"
  then obtain s1 s2 where
    "strip_prefix [CHR ''\"''] (skip_ws s) = Some s1" "str_body s1 = Some (k, s2)"
    "strip_prefix [CHR '':''] (skip_ws s2) = Some t"
    by (auto simp: read_key_def split: option.splits)
  from strip_prefix_length [OF this(1)] str_body_length [OF this(2)] strip_prefix_length [OF this(3)]
  show ?thesis using skip_ws_length [of s] skip_ws_length [of s2] by simp
qed

lemma list_tail_length:
  assumes "list_tail more close x d s = Some (v, t)"
    and "\<And>u w. more d u = Some (w, t) \<Longrightarrow> length t < length u"
  shows "length t < length s"
  using assms skip_ws_length [of s]
  by (fastforce simp: list_tail_def split: list.splits if_splits)

lemma read_container_length:
  assumes "read_container rdr close none con d s = Some (v, t)"
    and "\<And>u w. rdr (d - 1) u = Some (w, t) \<Longrightarrow> length t < length u"
  shows "length t < length s"
  using assms skip_ws_length [of s]
  by (fastforce simp: read_container_def split: if_splits option.splits dest: strip_prefix_length)

lemma value_step_length:
  assumes "value_step elems members d s = Some (v, t)"
    and "\<And>d u w. elems d u = Some (w, t) \<Longrightarrow> length t < length u"
    and "\<And>d u w. members d u = Some (w, t) \<Longrightarrow> length t < length u"
  shows "length t < length s"
proof -
  obtain c cs where s: "skip_ws s = c # cs"
    using assms(1) by (auto simp: value_step_def split: list.splits)
  then have "Suc (length cs) \<le> length s" using skip_ws_length [of s] by simp
  moreover have "length t < Suc (length cs)"
    using assms s
    by (auto simp: value_step_def read_literal_def split: if_splits
        dest!: str_body_length lex_number_length strip_prefix_length read_container_length)
  ultimately show ?thesis by simp
qed

lemma reader_length:
  "pval f d s = Some (v, t) \<Longrightarrow> length t < length s"
  "pelems f d s = Some (vs, t) \<Longrightarrow> length t < length s"
  "pmembers f d s = Some (ms, t) \<Longrightarrow> length t < length s"
proof (induction f arbitrary: d s v vs ms t)
  case (Suc f)
  {
    case 1
    with Suc.IH show ?case by (auto intro: value_step_length)
  next
    case 2
    then obtain w u where
      w: "pval f d s = Some (w, u)" and t: "list_tail (pelems f) (CHR '']'') w d u = Some (vs, t)"
      by (auto simp: elems_step_def split: option.splits)
    from t Suc.IH(2) have "length t < length u" by (rule list_tail_length)
    with Suc.IH(1) [OF w] show ?case by simp
  next
    case 3
    then obtain k w u u' where
      k: "read_key s = Some (k, u)" and w: "pval f d u = Some (w, u')"
      and t: "list_tail (pmembers f) (CHR ''}'') (k, w) d u' = Some (ms, t)"
      by (auto simp: members_step_def split: option.splits)
    from t Suc.IH(3) have "length t < length u'" by (rule list_tail_length)
    with Suc.IH(1) [OF w] read_key_length [OF k] show ?case by simp
  }
qed simp_all

text \<open>The steps read their arguments on shorter inputs only.\<close>

lemma list_tail_cong:
  assumes "\<And>u. length u < length s \<Longrightarrow> more d u = more' d u"
  shows "list_tail more close x d s = list_tail more' close x d s"
proof (cases "skip_ws s")
  case (Cons c cs)
  then have "length cs < length s" using skip_ws_length [of s] by simp
  with Cons assms show ?thesis by (simp add: list_tail_def)
qed (simp add: list_tail_def)

lemma value_step_cong:
  assumes "\<And>d u. length u < length s \<Longrightarrow> elems d u = elems' d u"
    and "\<And>d u. length u < length s \<Longrightarrow> members d u = members' d u"
  shows "value_step elems members d s = value_step elems' members' d s"
proof (cases "skip_ws s")
  case (Cons c cs)
  then have "length cs < length s" using skip_ws_length [of s] by simp
  with Cons assms show ?thesis
    by (simp add: value_step_def read_container_def split: option.split)
qed (simp add: value_step_def)

lemma pval_fuel:
  "2 * length s + 1 \<le> f \<Longrightarrow> 2 * length s + 1 \<le> g \<Longrightarrow> pval f d s = pval g d s"
  "2 * length s + 2 \<le> f \<Longrightarrow> 2 * length s + 2 \<le> g \<Longrightarrow> pelems f d s = pelems g d s"
  "2 * length s + 2 \<le> f \<Longrightarrow> 2 * length s + 2 \<le> g \<Longrightarrow> pmembers f d s = pmembers g d s"
proof (induction f arbitrary: d s g)
  case (Suc f)
  {
    case 1
    then obtain g' where g: "g = Suc g'" by (cases g) auto
    have "value_step (pelems f) (pmembers f) d s = value_step (pelems g') (pmembers g') d s"
      using 1 g by (intro value_step_cong Suc.IH) auto
    with g show ?case by simp
  next
    case 2
    then obtain g' where g: "g = Suc g'" by (cases g) auto
    with 2 have v: "pval f d s = pval g' d s" by (intro Suc.IH) auto
    have "list_tail (pelems f) c w d u = list_tail (pelems g') c w d u"
      if "length u < length s" for c w u
      using that 2 g by (intro list_tail_cong Suc.IH) auto
    with v g show ?case
      by (auto simp: elems_step_def split: option.split dest: reader_length)
  next
    case 3
    then obtain g' where g: "g = Suc g'" by (cases g) auto
    have v: "pval f d u = pval g' d u" if "length u < length s" for u
      using that 3 g by (intro Suc.IH) auto
    have l: "list_tail (pmembers f) c w d u = list_tail (pmembers g') c w d u"
      if "length u < length s" for c w u
      using that 3 g by (intro list_tail_cong Suc.IH) auto
    show ?case
    proof (cases "read_key s")
      case (Some ku)
      obtain k u where ku: "ku = (k, u)" by (cases ku)
      with Some have u: "length u < length s" by (simp add: read_key_length)
      show ?thesis
      proof (cases "pval g' d u")
        case (Some wt)
        obtain w t where wt: "wt = (w, t)" by (cases wt)
        with Some have "length t < length u" by (simp add: reader_length)
        with u have "length t < length s" by simp
        with Some \<open>read_key s = Some ku\<close> ku wt v [OF u] l g show ?thesis
          by (simp add: members_step_def)
      qed (simp add: members_step_def \<open>read_key s = Some ku\<close> ku v [OF u] g)
    qed (simp add: members_step_def g)
  }
qed simp_all

section \<open>Printer\<close>

definition json_quote :: "string \<Rightarrow> string" where
  "json_quote s = CHR ''\"'' # json_escape s @ [CHR ''\"'']"

fun commas :: "string list \<Rightarrow> string" where
  "commas [] = []"
| "commas [x] = x"
| "commas (x # y # ys) = x @ CHR '','' # commas (y # ys)"

fun json_print :: "json \<Rightarrow> string" where
  "json_print JNull = ''null''"
| "json_print (JBool b) = (if b then ''true'' else ''false'')"
| "json_print (JNum n) = numlit_str n"
| "json_print (JStr s) = json_quote s"
| "json_print (JArr js) = CHR ''['' # commas (map json_print js) @ '']''"
| "json_print (JObj ms) =
     CHR ''{'' # commas (map (\<lambda>kv. json_quote (fst kv) @ CHR '':'' # json_print (snd kv)) ms) @ ''}''"

text \<open>What a value becomes on the way: every string and key as valid UTF-8.\<close>

fun json_clean :: "json \<Rightarrow> json" where
  "json_clean (JStr s) = JStr (to_valid_utf8 s)"
| "json_clean (JArr js) = JArr (map json_clean js)"
| "json_clean (JObj ms) = JObj (map (\<lambda>kv. (to_valid_utf8 (fst kv), json_clean (snd kv))) ms)"
| "json_clean j = j"

text \<open>Numbers are literals of the grammar, nesting is at most \<open>d\<close>.\<close>

fun json_ok :: "nat \<Rightarrow> json \<Rightarrow> bool" where
  "json_ok d (JNum n) = numlit_ok n"
| "json_ok d (JArr js) = (0 < d \<and> list_all (json_ok (d - 1)) js)"
| "json_ok d (JObj ms) = (0 < d \<and> list_all (\<lambda>kv. json_ok (d - 1) (snd kv)) ms)"
| "json_ok d j = True"

section \<open>Parsing what was printed\<close>

lemma lex_number_head: "lex_number s = Some r \<Longrightarrow> \<exists>c cs. s = c # cs \<and> (c = CHR ''-'' \<or> is_digit c)"
  by (cases s) (auto simp: lex_number_def lex_sign_def lex_int_def is_digit_def
      split: if_splits option.splits)

lemma json_print_head:
  assumes "json_ok d j"
  obtains c cs where "json_print j = c # cs" "\<not> is_space c"
    "c \<noteq> CHR '']''" "c \<noteq> CHR ''}''"
proof (cases j)
  case (JNum n)
  with assms have "lex_number (numlit_str n) = Some (n, [])" by (simp add: numlit_ok_def)
  from lex_number_head [OF this] obtain c cs where
    c: "numlit_str n = c # cs" "c = CHR ''-'' \<or> is_digit c" by blast
  then have "\<not> is_space c" "c \<noteq> CHR '']''" "c \<noteq> CHR ''}''"
    by (auto simp: is_space_def is_digit_def)
  with JNum c(1) that show ?thesis by simp
next
  case (JBool b)
  then show ?thesis by (cases b) (auto simp: is_space_def intro: that)
qed (auto simp: json_quote_def is_space_def intro: that)

lemma skip_ws_Cons [simp]: "\<not> is_space c \<Longrightarrow> skip_ws (c # cs) = c # cs"
  by (simp add: skip_ws_def)

lemma not_space [simp]:
  "\<not> is_space (CHR ''\"'')" "\<not> is_space (CHR '':'')" "\<not> is_space (CHR '','')"
  "\<not> is_space (CHR '']'')" "\<not> is_space (CHR ''}'')"  "\<not> is_space (CHR ''['')" "\<not> is_space (CHR ''{'')"
  "\<not> is_space (CHR ''t'')" "\<not> is_space (CHR ''f'')" "\<not> is_space (CHR ''n'')"
  by (simp_all add: is_space_def)

lemma read_key_quote [simp]:
  "read_key (json_quote k @ CHR '':'' # s) = Some (to_valid_utf8 k, s)"
  by (simp add: read_key_def json_quote_def unquote_escape)

lemma num_stop_simps [simp]:
  "num_stop []" "num_stop (CHR '','' # t)" "num_stop (CHR '']'' # t)" "num_stop (CHR ''}'' # t)"
  by (simp_all add: num_stop_def)

text \<open>What the induction shows of one value.\<close>

definition prints_back :: "nat \<Rightarrow> json \<Rightarrow> bool" where
  "prints_back d j \<longleftrightarrow>
     (\<forall>f t. num_stop t \<longrightarrow> 2 * length (json_print j @ t) + 1 \<le> f \<longrightarrow>
        pval f d (json_print j @ t) = Some (json_clean j, t))"

lemma prints_backD:
  "prints_back d j \<Longrightarrow> num_stop t \<Longrightarrow> 2 * length (json_print j @ t) + 1 \<le> f \<Longrightarrow>
   pval f d (json_print j @ t) = Some (json_clean j, t)"
  unfolding prints_back_def by blast

lemma pelems_print:
  assumes "\<And>j. j \<in> set js \<Longrightarrow> prints_back d j" and "js \<noteq> []"
    and "2 * length (commas (map json_print js) @ CHR '']'' # t) + 2 \<le> f"
  shows "pelems f d (commas (map json_print js) @ CHR '']'' # t) = Some (map json_clean js, t)"
  using assms
proof (induction js arbitrary: f)
  case Nil
  then show ?case by simp
next
  case (Cons j js)
  obtain f' where f: "f = Suc f'" using Cons.prems(3) by (cases f) auto
  show ?case
  proof (cases js)
    case Nil
    then have "pval f' d (json_print j @ CHR '']'' # t) = Some (json_clean j, CHR '']'' # t)"
      using Cons.prems f by (intro prints_backD) auto
    with Nil f show ?thesis by (simp add: elems_step_def list_tail_def)
  next
    case (Cons j' js')
    let ?u = "commas (map json_print js) @ CHR '']'' # t"
    have p: "commas (map json_print (j # js)) @ CHR '']'' # t = json_print j @ CHR '','' # ?u"
      using Cons by simp
    have "pval f' d (json_print j @ CHR '','' # ?u) = Some (json_clean j, CHR '','' # ?u)"
      using Cons.prems f p by (intro prints_backD) auto
    moreover have "pelems f' d ?u = Some (map json_clean js, t)"
      using Cons.prems f p Cons by (intro Cons.IH) auto
    ultimately show ?thesis
      unfolding p f by (simp add: elems_step_def list_tail_def)
  qed
qed

abbreviation member_str :: "string \<times> json \<Rightarrow> string" where
  "member_str kv \<equiv> json_quote (fst kv) @ CHR '':'' # json_print (snd kv)"

abbreviation member_clean :: "string \<times> json \<Rightarrow> string \<times> json" where
  "member_clean kv \<equiv> (to_valid_utf8 (fst kv), json_clean (snd kv))"

lemma pmembers_print:
  assumes "\<And>kv. kv \<in> set ms \<Longrightarrow> prints_back d (snd kv)" and "ms \<noteq> []"
    and "2 * length (commas (map member_str ms) @ CHR ''}'' # t) + 2 \<le> f"
  shows "pmembers f d (commas (map member_str ms) @ CHR ''}'' # t) = Some (map member_clean ms, t)"
  using assms
proof (induction ms arbitrary: f)
  case Nil
  then show ?case by simp
next
  case (Cons kv ms)
  obtain f' where f: "f = Suc f'" using Cons.prems(3) by (cases f) auto
  show ?case
  proof (cases ms)
    case Nil
    then have "pval f' d (json_print (snd kv) @ CHR ''}'' # t) = Some (json_clean (snd kv), CHR ''}'' # t)"
      using Cons.prems f by (intro prints_backD) auto
    with Nil f show ?thesis by (simp add: members_step_def list_tail_def)
  next
    case (Cons kv' ms')
    let ?u = "commas (map member_str ms) @ CHR ''}'' # t"
    have p: "commas (map member_str (kv # ms)) @ CHR ''}'' # t = member_str kv @ CHR '','' # ?u"
      using Cons by simp
    have "pval f' d (json_print (snd kv) @ CHR '','' # ?u) = Some (json_clean (snd kv), CHR '','' # ?u)"
      using Cons.prems f p by (intro prints_backD) auto
    moreover have "pmembers f' d ?u = Some (map member_clean ms, t)"
      using Cons.prems f p Cons by (intro Cons.IH) auto
    ultimately show ?thesis
      unfolding p f by (simp add: members_step_def list_tail_def)
  qed
qed

lemma commas_head: "commas ((c # cs) # xs) = c # commas (cs # xs)"
  by (cases xs) auto

lemma pval_Suc: "0 < f \<Longrightarrow> pval f d s = value_step (pelems (f - 1)) (pmembers (f - 1)) d s"
  by (cases f) auto

lemma prints_back_number: "numlit_ok n \<Longrightarrow> prints_back d (JNum n)"
proof -
  assume ok: "numlit_ok n"
  then have lex: "lex_number (numlit_str n) = Some (n, [])" by (simp add: numlit_ok_def)
  then obtain c cs where c: "numlit_str n = c # cs" "c = CHR ''-'' \<or> is_digit c"
    using lex_number_head by blast
  then have d: "\<not> is_space c" "c \<notin> {CHR ''\"'', CHR ''{'', CHR ''['', CHR ''t'', CHR ''f'', CHR ''n''}"
    by (auto simp: is_space_def is_digit_def)
  show ?thesis
    unfolding prints_back_def
  proof (intro allI impI)
    fix f t assume t: "num_stop t" and "2 * length (json_print (JNum n) @ t) + 1 \<le> f"
    then have "0 < f" by simp
    moreover have "lex_number (c # cs @ t) = Some (n, t)"
      using lex_number_append [OF t lex] c(1) by simp
    ultimately show "pval f d (json_print (JNum n) @ t) = Some (json_clean (JNum n), t)"
      using c(1) d by (simp add: pval_Suc value_step_def)
  qed
qed

lemma prints_back_array:
  assumes "0 < d" and "\<And>j. j \<in> set js \<Longrightarrow> prints_back (d - 1) j"
    and "\<And>j. j \<in> set js \<Longrightarrow> json_ok (d - 1) j"
  shows "prints_back d (JArr js)"
  unfolding prints_back_def
proof (intro allI impI)
  fix f t assume f: "2 * length (json_print (JArr js) @ t) + 1 \<le> f"
  show "pval f d (json_print (JArr js) @ t) = Some (json_clean (JArr js), t)"
  proof (cases js)
    case Nil
    with f assms(1) show ?thesis by (simp add: pval_Suc value_step_def read_container_def)
  next
    case (Cons j js')
    obtain c cs where c: "json_print j = c # cs" "\<not> is_space c" "c \<noteq> CHR '']''"
      using assms(3) [of j] Cons by (auto elim: json_print_head)
    have "pelems (f - 1) (d - 1) (commas (map json_print js) @ CHR '']'' # t) = Some (map json_clean js, t)"
      using f assms(2) Cons by (intro pelems_print) auto
    with f assms(1) Cons c show ?thesis
      by (simp add: pval_Suc value_step_def read_container_def commas_head)
  qed
qed

lemma prints_back_object:
  assumes "0 < d" and "\<And>kv. kv \<in> set ms \<Longrightarrow> prints_back (d - 1) (snd kv)"
  shows "prints_back d (JObj ms)"
  unfolding prints_back_def
proof (intro allI impI)
  fix f t assume f: "2 * length (json_print (JObj ms) @ t) + 1 \<le> f"
  show "pval f d (json_print (JObj ms) @ t) = Some (json_clean (JObj ms), t)"
  proof (cases ms)
    case Nil
    with f assms(1) show ?thesis by (simp add: pval_Suc value_step_def read_container_def)
  next
    case (Cons kv ms')
    have "pmembers (f - 1) (d - 1) (commas (map member_str ms) @ CHR ''}'' # t)
        = Some (map member_clean ms, t)"
      using f assms(2) Cons by (intro pmembers_print) auto
    with f assms(1) Cons show ?thesis
      by (simp add: pval_Suc value_step_def read_container_def commas_head json_quote_def)
  qed
qed

lemma prints_back_all: "json_ok d j \<Longrightarrow> prints_back d j"
proof (induction j arbitrary: d)
  case (JArr js)
  then show ?case by (intro prints_back_array) (auto simp: list_all_iff)
next
  case (JObj ms)
  then show ?case by (intro prints_back_object) (force simp: list_all_iff snds.simps)+
next
  case (JNum n)
  then show ?case by (intro prints_back_number) simp
next
  case JNull
  then show ?case
    by (auto simp: prints_back_def pval_Suc value_step_def read_literal_def strip_prefix_def)
next
  case (JBool b)
  then show ?case
    by (cases b) (auto simp: prints_back_def pval_Suc value_step_def read_literal_def strip_prefix_def)
next
  case (JStr s)
  then show ?case
    by (auto simp: prints_back_def pval_Suc value_step_def json_quote_def unquote_escape)
qed

lemma json_roundtrip:
  assumes "json_ok maxNestingDepth j"
  shows "json_parse (json_print j) = Some (json_clean j)"
    and "json_decode (json_print j) = Some (json_clean j)"
proof -
  have "pval (json_fuel (json_print j)) maxNestingDepth (json_print j @ []) = Some (json_clean j, [])"
    using prints_back_all [OF assms] by (intro prints_backD) (auto simp: json_fuel_def)
  then show "json_parse (json_print j) = Some (json_clean j)"
    and "json_decode (json_print j) = Some (json_clean j)"
    by (simp_all add: json_parse_def json_decode_def skip_ws_def)
qed

text \<open>\<open>Encoder.Encode\<close> ends the value with a newline; a reader of the whole text accepts it.\<close>

definition json_line :: "json \<Rightarrow> string" where
  "json_line j = json_print j @ [CHR 10]"

lemma json_parse_line:
  assumes "json_ok maxNestingDepth j"
  shows "json_parse (json_line j) = Some (json_clean j)"
proof -
  have "pval (json_fuel (json_line j)) maxNestingDepth (json_print j @ [CHR 10]) = Some (json_clean j, [CHR 10])"
    using prints_back_all [OF assms] by (intro prints_backD) (auto simp: json_fuel_def json_line_def num_stop_def)
  then show ?thesis
    by (simp add: json_parse_def json_line_def skip_ws_def is_space_def)
qed

section \<open>Reading numbers\<close>

definition int_lit :: "int \<Rightarrow> numlit" where
  "int_lit i = NumLit (i < 0) (nat_str (nat \<bar>i\<bar>)) [] []"

text \<open>\<open>strconv.ParseInt(literal, 10, 64)\<close>: digits only, and in range.\<close>

definition lit_int64 :: "numlit \<Rightarrow> int option" where
  "lit_int64 n =
     (if nl_frac n = [] \<and> nl_exp n = [] then
        (let v = int (digits_val 0 (nl_int n)); i = (if nl_neg n then - v else v)
         in if in_int64 i then Some i else None)
      else None)"

definition exp_val :: "string \<Rightarrow> int" where
  "exp_val e =
     (case e of [] \<Rightarrow> 0
      | _ # u \<Rightarrow>
          (case lex_exp_sign u of (sg, ds) \<Rightarrow>
             (if sg = ''-'' then - int (digits_val 0 ds) else int (digits_val 0 ds))))"

definition lit_rat :: "numlit \<Rightarrow> rat" where
  "lit_rat n =
     (if nl_neg n then - 1 else 1) * of_nat (digits_val 0 (nl_int n @ nl_frac n))
       * 10 powi (exp_val (nl_exp n) - int (length (nl_frac n)))"

text \<open>\<open>strconv.ParseFloat(literal, 64)\<close>: the nearest \<open>float64\<close>, an error beyond the range.\<close>

definition lit_f64 :: "numlit \<Rightarrow> rat option" where
  "lit_f64 n = (case to_f64 (lit_rat n) of Fin r \<Rightarrow> Some r | _ \<Rightarrow> None)"

lemma nat_str_no_leading_zero: "nat_str n = CHR ''0'' # cs \<Longrightarrow> n = 0"
  using nat_str_leading [of n] by (cases "n = 0") auto

lemma takeWhile_digits: "list_all is_digit s \<Longrightarrow> takeWhile is_digit s = s \<and> dropWhile is_digit s = []"
  by (induction s) auto

lemma numlit_ok_int [simp]: "numlit_ok (int_lit i)"
proof -
  let ?s = "nat_str (nat \<bar>i\<bar>)"
  have digs: "list_all is_digit ?s"
    by (auto simp: list_all_iff intro: nat_str_digits)
  obtain c cs where s: "?s = c # cs" by (cases ?s) auto
  have c: "is_digit c" using digs s by simp
  then have neq: "c \<noteq> CHR ''-''" by auto
  have "lex_int ?s = Some (?s, [])"
  proof (cases "c = CHR ''0''")
    case True
    then have "nat \<bar>i\<bar> = 0" using s nat_str_no_leading_zero by metis
    then show ?thesis by (simp add: lex_int_def)
  next
    case False
    with c s takeWhile_digits [OF digs] show ?thesis by (simp add: lex_int_def lex_digits_def)
  qed
  then show ?thesis
    using s neq
    by (auto simp: numlit_ok_def int_lit_def numlit_str_def lex_number_def lex_sign_def
        lex_frac_def lex_exp_def)
qed

lemma lit_int64_int [simp]: "in_int64 i \<Longrightarrow> lit_int64 (int_lit i) = Some i"
  by (auto simp: lit_int64_def int_lit_def Let_def in_int64_def)

end
