(* ===== verification/JsonStruct.thy ===== *)
theory JsonStruct
  imports Json
begin

text \<open>
  How \<open>encoding/json\<close> fills a struct: the members of the object are taken in order, a member
  is given to the field whose name it equals up to case folding, others are skipped;
  \<open>null\<close> leaves the field as it is, a value of another type fails the call (the callers here
  all discard the partly filled struct).
\<close>

definition upper_char :: "char \<Rightarrow> char" where
  "upper_char c = (if 97 \<le> byte c \<and> byte c \<le> 122 then char_of (byte c - 32) else c)"

text \<open>
  \<open>foldName\<close>: ASCII letters to upper case; of the other runes only the long s (U+017F) and
  the Kelvin sign (U+212A) fold to ASCII.
\<close>

fun fold_name :: "string \<Rightarrow> string" where
  "fold_name [] = []"
| "fold_name (c # cs) =
     (if byte c < 128 then upper_char c # fold_name cs
      else if byte c = 197 \<and> take 1 cs = [char_of (191 :: nat)] then CHR ''S'' # fold_name (drop 1 cs)
      else if byte c = 226 \<and> take 2 cs = [char_of (132 :: nat), char_of (170 :: nat)]
        then CHR ''K'' # fold_name (drop 2 cs)
      else c # fold_name cs)"

type_synonym 'r field = "string \<times> (json \<Rightarrow> 'r \<Rightarrow> 'r option)"

definition find_field :: "'r field list \<Rightarrow> string \<Rightarrow> (json \<Rightarrow> 'r \<Rightarrow> 'r option) option" where
  "find_field fs k = map_option snd (find (\<lambda>f. fold_name (fst f) = fold_name k) fs)"

fun decode_members :: "'r field list \<Rightarrow> (string \<times> json) list \<Rightarrow> 'r \<Rightarrow> 'r option" where
  "decode_members fs [] r = Some r"
| "decode_members fs ((k, v) # ms) r =
     (case find_field fs k of
        None \<Rightarrow> decode_members fs ms r
      | Some setf \<Rightarrow>
          (case setf v r of None \<Rightarrow> None | Some r' \<Rightarrow> decode_members fs ms r'))"

fun decode_struct :: "'r field list \<Rightarrow> json \<Rightarrow> 'r \<Rightarrow> 'r option" where
  "decode_struct fs (JObj ms) r = decode_members fs ms r"
| "decode_struct fs JNull r = Some r"
| "decode_struct fs _ r = None"

text \<open>The setters of the field types used.\<close>

fun set_string :: "(string \<Rightarrow> 'r \<Rightarrow> 'r) \<Rightarrow> json \<Rightarrow> 'r \<Rightarrow> 'r option" where
  "set_string upd (JStr s) r = Some (upd s r)"
| "set_string upd JNull r = Some r"
| "set_string upd _ r = None"

fun set_int64 :: "(int \<Rightarrow> 'r \<Rightarrow> 'r) \<Rightarrow> json \<Rightarrow> 'r \<Rightarrow> 'r option" where
  "set_int64 upd (JNum n) r = (case lit_int64 n of None \<Rightarrow> None | Some i \<Rightarrow> Some (upd i r))"
| "set_int64 upd JNull r = Some r"
| "set_int64 upd _ r = None"

fun set_float64 :: "(rat \<Rightarrow> 'r \<Rightarrow> 'r) \<Rightarrow> json \<Rightarrow> 'r \<Rightarrow> 'r option" where
  "set_float64 upd (JNum n) r = (case lit_f64 n of None \<Rightarrow> None | Some x \<Rightarrow> Some (upd x r))"
| "set_float64 upd JNull r = Some r"
| "set_float64 upd _ r = None"

fun set_bool :: "(bool \<Rightarrow> 'r \<Rightarrow> 'r) \<Rightarrow> json \<Rightarrow> 'r \<Rightarrow> 'r option" where
  "set_bool upd (JBool b) r = Some (upd b r)"
| "set_bool upd JNull r = Some r"
| "set_bool upd _ r = None"

declare fold_name.simps [simp del]

text \<open>A literal name of lower-case letters and underscores folds to upper case.\<close>

lemma fold_name_map: "ascii s \<Longrightarrow> fold_name s = map upper_char s"
  by (induction s) (auto simp: ascii_def fold_name.simps)

lemma find_field_simps [simp]:
  "find_field [] k = None"
  "find_field ((n, setf) # fs) k = (if fold_name n = fold_name k then Some setf else find_field fs k)"
  by (simp_all add: find_field_def)

lemma decode_members_append:
  "decode_members fs (xs @ ys) r =
     (case decode_members fs xs r of None \<Rightarrow> None | Some r' \<Rightarrow> decode_members fs ys r')"
  by (induction xs arbitrary: r) (auto split: option.split)

end
