(* ===== verification/FloatLit.thy ===== *)
theory FloatLit
  imports JsonStruct
begin

text \<open>
  How \<open>encoding/json\<close> writes a \<open>float64\<close>: the shortest decimal that reads back as the same
  value (\<open>strconv.FormatFloat(x, 'f' or 'e', -1, 64)\<close>), in exponent form below \<open>1e-6\<close> and
  from \<open>1e21\<close> on. \<open>float_roundtrip\<close>: what is written reads back as the value.
\<close>

section \<open>Literals of the grammar\<close>

definition int_digits :: "string \<Rightarrow> bool" where
  "int_digits s \<longleftrightarrow> s = ''0'' \<or> s \<noteq> [] \<and> list_all is_digit s \<and> hd s \<noteq> CHR ''0''"

definition exp_text :: "string \<Rightarrow> bool" where
  "exp_text s \<longleftrightarrow> s = [] \<or> (\<exists>ds. (s = ''e+'' @ ds \<or> s = ''e-'' @ ds) \<and> ds \<noteq> [] \<and> list_all is_digit ds)"

lemma digit_neq:
  "is_digit c \<Longrightarrow> c \<noteq> CHR ''-'' \<and> c \<noteq> CHR ''.'' \<and> c \<noteq> CHR ''e'' \<and> c \<noteq> CHR ''E'' \<and> c \<noteq> CHR ''+''"
  by (auto simp: is_digit_def)

lemma lex_digits_stop:
  "list_all is_digit s \<Longrightarrow> t = [] \<or> \<not> is_digit (hd t) \<Longrightarrow> lex_digits (s @ t) = (s, t)"
  by (induction s) (cases t, auto simp: lex_digits_def)+

lemma numlit_okI:
  assumes i: "int_digits i" and f: "list_all is_digit f" and e: "exp_text e"
  shows "numlit_ok (NumLit neg i f e)"
proof -
  have e0: "e = [] \<or> (hd e = CHR ''e'' \<and> e \<noteq> [])" using e by (auto simp: exp_text_def)
  let ?t = "(if f = [] then [] else CHR ''.'' # f) @ e"
  have t: "?t = [] \<or> \<not> is_digit (hd ?t)" using e0 by (auto simp: is_digit_def)
  obtain c cs where c: "i = c # cs" using i by (cases i) (auto simp: int_digits_def)
  have "is_digit c" using i c by (auto simp: int_digits_def is_digit_def)
  then have sg: "lex_sign ((if neg then ''-'' else []) @ i @ ?t) = (neg, i @ ?t)"
    using c by (auto simp: lex_sign_def dest: digit_neq)
  have i': "lex_int (i @ ?t) = Some (i, ?t)"
    using i t c \<open>is_digit c\<close> lex_digits_stop [of i ?t] by (auto simp: lex_int_def int_digits_def)
  have f': "lex_frac ?t = Some (f, e)"
  proof (cases "f = []")
    case True
    with e0 show ?thesis by (cases e) (auto simp: lex_frac_def)
  next
    case False
    have "lex_digits (f @ e) = (f, e)"
      using f e0 by (intro lex_digits_stop) (auto simp: is_digit_def)
    with False show ?thesis by (simp add: lex_frac_def)
  qed
  have e': "lex_exp e = Some (e, [])"
    using e lex_digits_stop [of _ "[]"] by (auto simp: exp_text_def lex_exp_def lex_exp_sign_def)
  have str: "numlit_str (NumLit neg i f e) = (if neg then ''-'' else []) @ i @ ?t"
    by (simp add: numlit_str_def)
  show ?thesis
    unfolding numlit_ok_def str lex_number_def Let_def sg prod.case i' option.case f' e' ..
qed

lemma int_digits_nat_str [simp]: "int_digits (nat_str n)"
  using nat_str_leading [of n]
  by (cases "n = 0") (auto simp: int_digits_def list_all_iff intro: nat_str_digits)

lemma nat_str_all_digits [simp]: "list_all is_digit (nat_str n)"
  by (auto simp: list_all_iff intro: nat_str_digits)

section \<open>The shortest decimal\<close>

definition dec_at :: "int \<Rightarrow> rat \<Rightarrow> rat" where
  "dec_at k x = of_int (rne (x / 10 powi k)) * 10 powi k"

text \<open>
  The largest exponent at which the nearest decimal still reads back as \<open>x\<close>, searched downwards;
  at exponent -1074 every finite \<open>float64\<close> is itself a decimal.
\<close>

fun short_exp :: "nat \<Rightarrow> int \<Rightarrow> rat \<Rightarrow> int" where
  "short_exp 0 k x = k"
| "short_exp (Suc f) k x = (if f64r (dec_at k x) = x then k else short_exp f (k - 1) x)"

definition float_exp :: "rat \<Rightarrow> int" where
  "float_exp x = (let k = int (length (nat_str (nat \<lfloor>x\<rfloor>))) in short_exp (nat (k + 1074)) k x)"

definition decimal_lit :: "bool \<Rightarrow> nat \<Rightarrow> int \<Rightarrow> numlit" where
  "decimal_lit neg m k =
     (if 0 \<le> k then NumLit neg (nat_str m @ replicate (nat k) (CHR ''0'')) [] []
      else let n = nat (- k); s = nat_str m;
               p = replicate (Suc n - length s) (CHR ''0'') @ s
           in NumLit neg (take (length p - n) p) (drop (length p - n) p) [])"

definition exponent_lit :: "bool \<Rightarrow> nat \<Rightarrow> int \<Rightarrow> numlit" where
  "exponent_lit neg m k =
     (let s = nat_str m; e = k + int (length s) - 1
      in NumLit neg [hd s] (tl s) ((if e < 0 then ''e-'' else ''e+'') @ nat_str (nat \<bar>e\<bar>)))"

definition float_lit :: "rat \<Rightarrow> numlit" where
  "float_lit x =
     (if x = 0 then NumLit False ''0'' [] []
      else let a = \<bar>x\<bar>; k = float_exp a; m = nat (rne (a / 10 powi k))
           in if a < 1 / 10 ^ 6 \<or> 10 ^ 21 \<le> a then exponent_lit (x < 0) m k
              else decimal_lit (x < 0) m k)"

lemma digits_val_zeros [simp]: "digits_val 0 (replicate n (CHR ''0'') @ s) = digits_val 0 s"
proof -
  have "digit_val (CHR ''0'') = 0" by (simp add: digit_val_def)
  then show ?thesis by (induction n) auto
qed

lemma digits_val_trailing: "digits_val a (s @ replicate n (CHR ''0'')) = 10 ^ n * digits_val a s"
proof -
  have "digit_val (CHR ''0'') = 0" by (simp add: digit_val_def)
  then have "digits_val b (replicate n (CHR ''0'')) = 10 ^ n * b" for b
    by (induction n arbitrary: b) auto
  then show ?thesis by (simp add: digits_val_append)
qed

lemma lit_rat_decimal: "lit_rat (decimal_lit neg m k) = (if neg then - 1 else 1) * of_nat m * 10 powi k"
proof (cases "0 \<le> k")
  case True
  then show ?thesis
    by (simp add: decimal_lit_def lit_rat_def exp_val_def digits_val_trailing power_int_def)
next
  case False
  define p where "p = replicate (Suc (nat (- k)) - length (nat_str m)) (CHR ''0'') @ nat_str m"
  have "digits_val 0 p = m" and l: "nat (- k) \<le> length p" by (simp_all add: p_def)
  then have v: "digits_val 0 (take j p @ drop j p) = m" for j by simp
  have d: "decimal_lit neg m k
      = NumLit neg (take (length p - nat (- k)) p) (drop (length p - nat (- k)) p) []"
    using False by (simp add: decimal_lit_def Let_def p_def)
  show ?thesis
    unfolding d lit_rat_def numlit.sel v exp_val_def using False l by simp
qed

lemma exp_val_text:
  "exp_val (''e-'' @ ds) = - int (digits_val 0 ds)"
  "exp_val (''e+'' @ ds) = int (digits_val 0 ds)"
  by (simp_all add: exp_val_def lex_exp_sign_def)

lemma lit_rat_exponent: "lit_rat (exponent_lit neg m k) = (if neg then - 1 else 1) * of_nat m * 10 powi k"
proof -
  have s: "hd (nat_str m) # tl (nat_str m) = nat_str m" by simp
  have l: "int (length (nat_str m) - Suc 0) = int (length (nat_str m)) - 1"
    by (cases "nat_str m") auto
  show ?thesis
    unfolding exponent_lit_def Let_def lit_rat_def
    by (simp add: s l exp_val_text [simplified] del: hd_Cons_tl)
qed

lemma numlit_ok_decimal:
  assumes "0 < m"
  shows "numlit_ok (decimal_lit neg m k)"
proof (cases "0 \<le> k")
  case True
  have "hd (nat_str m @ r) \<noteq> CHR ''0''" for r
    using nat_str_leading [OF assms] by (simp add: hd_append)
  moreover have "list_all is_digit (replicate j (CHR ''0''))" for j
    by (simp add: list_all_iff is_digit_def)
  ultimately have "int_digits (nat_str m @ replicate (nat k) (CHR ''0''))"
    by (simp add: int_digits_def)
  with True show ?thesis
    by (simp add: decimal_lit_def) (rule numlit_okI, auto simp: exp_text_def)
next
  case False
  let ?s = "nat_str m" and ?n = "nat (- k)"
  let ?p = "replicate (Suc ?n - length ?s) (CHR ''0'') @ ?s"
  have "list_all is_digit (replicate j (CHR ''0''))" for j
    by (simp add: list_all_iff is_digit_def)
  then have p: "list_all is_digit ?p" by simp
  have "int_digits (take (length ?p - ?n) ?p)"
  proof (cases "length ?s \<le> ?n")
    case True
    then have "length ?p - ?n = 1" by simp
    with True show ?thesis by (cases "Suc ?n - length ?s") (auto simp: int_digits_def)
  next
    case False
    then have "take (length ?p - ?n) ?p = take (length ?s - ?n) ?s" "0 < length ?s - ?n" by auto
    moreover have "hd (take (length ?s - ?n) ?s) \<noteq> CHR ''0''"
      using nat_str_leading [OF assms] False by (simp add: hd_take)
    moreover have "list_all is_digit (take j ?s)" for j
      by (auto simp: list_all_iff intro: nat_str_digits dest: in_set_takeD)
    ultimately show ?thesis by (auto simp: int_digits_def)
  qed
  moreover have "list_all is_digit (drop j ?p)" for j
    using p by (auto simp: list_all_iff dest: in_set_dropD)
  ultimately have "numlit_ok (NumLit neg (take (length ?p - ?n) ?p) (drop (length ?p - ?n) ?p) [])"
    by (intro numlit_okI) (auto simp only: exp_text_def)
  with False show ?thesis unfolding decimal_lit_def Let_def by presburger
qed

lemma numlit_ok_exponent:
  assumes "0 < m"
  shows "numlit_ok (exponent_lit neg m k)"
proof -
  obtain c cs where s: "nat_str m = c # cs" by (cases "nat_str m") auto
  have "list_all is_digit (c # cs)" using nat_str_all_digits [of m] by (simp add: s)
  moreover have "c \<noteq> CHR ''0''" using nat_str_leading [OF assms] s by simp
  ultimately show ?thesis
    unfolding exponent_lit_def Let_def s
    by (intro numlit_okI) (auto simp: int_digits_def exp_text_def)
qed

section \<open>Reading back\<close>

lemma short_exp_cases:
  "f64r (dec_at (short_exp f k x) x) = x \<or> short_exp f k x = k - int f"
proof (induction f arbitrary: k)
  case (Suc f)
  from Suc.IH [of "k - 1"] show ?case by auto
qed simp

lemma dec_at_grid:
  assumes "- int N \<le> k"
  shows "dec_at (- int N) (of_int n * pow2 k) = of_int n * pow2 k"
proof -
  have "pow2 k * 2 ^ N = pow2 (k + int N)"
    by (simp add: pow2_add pow2_nat)
  also have "\<dots> = of_int (2 ^ nat (k + int N))" using assms by (intro pow2_nat) simp
  finally have p2: "pow2 k * 2 ^ N = of_int (2 ^ nat (k + int N))" .
  have "(10 :: rat) ^ N = 2 ^ N * 5 ^ N" by (simp flip: power_mult_distrib)
  with p2 have p: "pow2 k * 10 ^ N = of_int (2 ^ nat (k + int N) * 5 ^ N)"
    by (simp add: mult.assoc [symmetric])
  have "of_int n * pow2 k / 10 powi (- int N) = of_int n * (pow2 k * 10 ^ N)"
    by (simp add: power_int_minus field_simps)
  also have "\<dots> = of_int (n * (2 ^ nat (k + int N) * 5 ^ N))"
    unfolding p of_int_mult ..
  finally have i: "of_int n * pow2 k / 10 powi (- int N) = of_int (n * (2 ^ nat (k + int N) * 5 ^ N))" .
  have "of_int (rne (of_int n * pow2 k / 10 powi (- int N))) = of_int n * pow2 k / 10 powi (- int N)"
    unfolding i by (simp only: rne_of_int)
  then show ?thesis by (simp add: dec_at_def)
qed

lemma dec_at_exact:
  assumes "f64r x = x"
  shows "dec_at (- 1074) x = x"
proof -
  obtain n k where x: "x = of_int n * pow2 k" and k: "- 1074 \<le> k"
    using fl_grid_form [of 53 "- 1074" x] assms unfolding f64r_def by auto
  have e: "- int 1074 = - 1074" by simp
  from k show ?thesis unfolding x e [symmetric] by (rule dec_at_grid)
qed

lemma float_exp_reads: "f64r x = x \<Longrightarrow> f64r (dec_at (float_exp x) x) = x"
proof -
  assume x: "f64r x = x"
  let ?k = "int (length (nat_str (nat \<lfloor>x\<rfloor>)))"
  have "?k - int (nat (?k + 1074)) = - 1074" by simp
  with short_exp_cases [of "nat (?k + 1074)" ?k x] dec_at_exact [OF x] x show ?thesis
    by (auto simp: float_exp_def Let_def)
qed

lemma rne_pos: "0 < of_int (rne z) * (c :: rat) \<Longrightarrow> 0 < c \<Longrightarrow> 0 < rne z"
  by (simp add: zero_less_mult_iff)

lemma float_lit_facts:
  assumes x: "f64r x = x" and nz: "x \<noteq> 0"
  shows "f64r (lit_rat (float_lit x)) = x" and "numlit_ok (float_lit x)"
proof -
  let ?a = "\<bar>x\<bar>"
  let ?k = "float_exp ?a"
  let ?m = "rne (?a / 10 powi ?k)"
  have a: "f64r ?a = ?a" using x by (auto simp: abs_if b64.rd_minus)
  from float_exp_reads [OF a] have r: "f64r (of_int ?m * 10 powi ?k) = ?a"
    by (simp add: dec_at_def)
  have m: "0 < ?m"
  proof (rule ccontr)
    assume "\<not> 0 < ?m"
    then have "of_int ?m * 10 powi ?k \<le> (0 :: rat)" by (simp add: mult_le_0_iff)
    from b64.rd_mono [OF this] r nz show False by (simp add: b64.rd_0)
  qed
  then have mm: "of_nat (nat ?m) = (of_int ?m :: rat)" by simp
  have l: "float_lit x = exponent_lit (x < 0) (nat ?m) ?k \<or> float_lit x = decimal_lit (x < 0) (nat ?m) ?k"
    using nz unfolding float_lit_def Let_def by presburger
  then have v: "lit_rat (float_lit x) = (if x < 0 then - 1 else 1) * (of_int ?m * 10 powi ?k)"
    using mm by (auto simp only: lit_rat_decimal lit_rat_exponent mult.assoc)
  show "f64r (lit_rat (float_lit x)) = x"
    unfolding v using r by (auto simp: b64.rd_minus)
  show "numlit_ok (float_lit x)"
    using l m by (auto simp only: numlit_ok_decimal numlit_ok_exponent zero_less_nat_eq)
qed

lemma numlit_ok_float: "f64r x = x \<Longrightarrow> numlit_ok (float_lit x)"
  using float_lit_facts(2) [of x]
  by (cases "x = 0") (auto simp: float_lit_def int_digits_def exp_text_def intro: numlit_okI)

lemma float_roundtrip: "f64_finite (Fin x) \<Longrightarrow> lit_f64 (float_lit x) = Some x"
proof -
  assume "f64_finite (Fin x)"
  then have x: "f64r x = x" "\<bar>x\<bar> < f64_limit" by (auto simp: f64_finite_def)
  have "f64r (lit_rat (float_lit x)) = x"
  proof (cases "x = 0")
    case True
    have "digit_val (CHR ''0'') = 0" by (simp add: digit_val_def)
    with True show ?thesis by (simp add: float_lit_def lit_rat_def exp_val_def b64.rd_0)
  next
    case False
    with x(1) show ?thesis by (rule float_lit_facts(1))
  qed
  with x(2) show ?thesis by (simp add: lit_f64_def to_f64_def)
qed

end
