(* ===== verification/FleetOrders.thy ===== *)
theory FleetOrders
  imports FloatLit JsonStruct
begin

text \<open>
  \<open>cmd/fleet/orders.go\<close>: the synthetic orders. The random source of \<open>math/rand\<close> is given by the
  values it returns (\<open>draws\<close>), within its documented ranges (\<open>draws_ok\<close>); \<open>float64\<close> steps round
  one by one, as on amd64. Also \<open>json.Marshal\<close> of an order, whose zero fields are omitted, and
  the facts about prices: a whole number of cents between 10.00 and 500.00, printed short.
\<close>

record order =
  or_ID :: string
  or_Type :: string
  or_Side :: string
  or_Price :: rat
  or_Quantity :: int
  or_Timestamp :: int
  or_CancelTargetID :: string

text \<open>What \<open>Float32\<close>, \<open>Intn(n)\<close>, \<open>Float32\<close>, \<open>Float64\<close> and \<open>Intn(100)\<close> return, and the clock.\<close>

record draws =
  dr_roll :: rat
  dr_target :: "int \<Rightarrow> int"
  dr_side :: rat
  dr_price :: rat
  dr_quantity :: int
  dr_now :: int

definition draws_ok :: "draws \<Rightarrow> bool" where
  "draws_ok d \<longleftrightarrow> 0 \<le> dr_roll d \<and> dr_roll d < 1 \<and> (\<forall>n. 0 < n \<longrightarrow> 0 \<le> dr_target d n \<and> dr_target d n < n) \<and>
     0 \<le> dr_side d \<and> dr_side d < 1 \<and> 0 \<le> dr_price d \<and> dr_price d < 1 \<and>
     0 \<le> dr_quantity d \<and> dr_quantity d < 100 \<and> in_int64 (dr_now d)"

definition ord_id :: "int \<Rightarrow> string" where
  "ord_id i = ''ORD-'' @ itoa i"

definition order_type :: "rat \<Rightarrow> string" where
  "order_type roll =
     (if roll > f32r (90 / 100) then ''CANCEL'' else if roll > f32r (45 / 100) then ''MARKET'' else ''LIMIT'')"

text \<open>\<open>int(x)\<close> truncates towards zero.\<close>

definition trunc :: "rat \<Rightarrow> int" where
  "trunc x = (if x < 0 then \<lceil>x\<rceil> else \<lfloor>x\<rfloor>)"

definition round_cents :: "rat \<Rightarrow> rat" where
  "round_cents price = f64r (f64r (of_int (trunc (f64r (price * 100)))) / 100)"

definition draw_price :: "rat \<Rightarrow> rat" where
  "draw_price u = round_cents (f64r (10 + f64r (u * 490)))"

definition generateOrder :: "draws \<Rightarrow> int \<Rightarrow> order" where
  "generateOrder d index =
     (let orderType = order_type (dr_roll d); timestamp = dr_now d
      in if orderType = ''CANCEL''
         then let targetIndex = (if index > 1 then dr_target d (index - 1) + 1 else 1)
              in \<lparr>or_ID = ord_id index, or_Type = orderType, or_Side = [], or_Price = 0,
                  or_Quantity = 0, or_Timestamp = timestamp, or_CancelTargetID = ord_id targetIndex\<rparr>
         else let side = (if dr_side d > 1 / 2 then ''SELL'' else ''BUY'')
              in \<lparr>or_ID = ord_id index, or_Type = orderType, or_Side = side,
                  or_Price = draw_price (dr_price d), or_Quantity = dr_quantity d + 1,
                  or_Timestamp = timestamp, or_CancelTargetID = []\<rparr>)"

text \<open>A member of a struct with \<open>omitempty\<close>.\<close>

definition opt_str :: "string \<Rightarrow> string \<Rightarrow> (string \<times> json) list" where
  "opt_str name v = (if v = [] then [] else [(name, JStr v)])"

definition opt_int :: "string \<Rightarrow> int \<Rightarrow> (string \<times> json) list" where
  "opt_int name v = (if v = 0 then [] else [(name, JNum (int_lit v))])"

definition opt_float :: "string \<Rightarrow> rat \<Rightarrow> (string \<times> json) list" where
  "opt_float name v = (if v = 0 then [] else [(name, JNum (float_lit v))])"

definition order_json :: "order \<Rightarrow> json" where
  "order_json r = JObj
     ([(''id'', JStr (or_ID r)), (''type'', JStr (or_Type r))] @
      opt_str ''side'' (or_Side r) @ opt_float ''price'' (or_Price r) @
      opt_int ''quantity'' (or_Quantity r) @
      [(''timestamp'', JNum (int_lit (or_Timestamp r)))] @
      opt_str ''cancel_target_id'' (or_CancelTargetID r))"

definition encode_order :: "order \<Rightarrow> string" where
  "encode_order r = json_print (order_json r)"

section \<open>Prices\<close>

text \<open>The \<open>float64\<close> nearest to a number of cents.\<close>

definition cents :: "int \<Rightarrow> rat" where
  "cents n = f64r (of_int n / 100)"

lemma draw_price_cents:
  assumes "0 \<le> u" and "u < 1"
  shows "\<exists>n. 1000 \<le> n \<and> n \<le> 50000 \<and> draw_price u = cents n"
proof -
  let ?p = "f64r (10 + f64r (u * 490))"
  have fixed: "f64r 490 = 490" "f64r 500 = 500" "f64r 10 = 10" "f64r 1000 = 1000" "f64r 50000 = 50000"
    using b64.rd_int [of 490] b64.rd_int [of 500] b64.rd_int [of 10] b64.rd_int [of 1000]
      b64.rd_int [of 50000] by simp_all
  have "0 \<le> f64r (u * 490)" "f64r (u * 490) \<le> 490"
    using assms by (auto intro!: b64.rd_nonneg b64.rd_le_fixed [OF _ fixed(1)])
  then have "10 \<le> ?p" "?p \<le> 500"
    by (auto intro!: b64.rd_ge_fixed [OF _ fixed(3)] b64.rd_le_fixed [OF _ fixed(2)])
  then have q: "1000 \<le> f64r (?p * 100)" "f64r (?p * 100) \<le> 50000"
    by (auto intro!: b64.rd_ge_fixed [OF _ fixed(4)] b64.rd_le_fixed [OF _ fixed(5)])
  define n where "n = trunc (f64r (?p * 100))"
  have "n = \<lfloor>f64r (?p * 100)\<rfloor>" using q(1) by (simp add: n_def trunc_def)
  then have n: "1000 \<le> n" "n \<le> 50000" using q by (simp_all add: le_floor_iff floor_le_iff)
  then have "f64r (of_int n) = of_int n" by (intro b64.rd_int) auto
  then have "draw_price u = cents n" by (simp add: draw_price_def round_cents_def cents_def n_def [symmetric])
  with n show ?thesis by blast
qed

text \<open>A number of cents is within a 256th of its \<open>float64\<close>.\<close>

lemma near_grid:
  fixes c x y :: rat
  assumes "y / 256 \<le> c" and "c \<le> (y + 1) / 256" and "y \<le> x / 100 * 256" and "x / 100 * 256 \<le> y + 1"
  shows "\<bar>c - x / 100\<bar> \<le> 1 / 256"
proof -
  have "y \<le> c * 256" "c * 256 \<le> y + 1" using assms(1,2) by (simp_all add: field_simps)
  with assms(3,4) have "c * 256 - x / 100 * 256 \<le> 1" "x / 100 * 256 - c * 256 \<le> 1" by linarith+
  then have "c - x / 100 \<le> 1 / 256" "- (c - x / 100) \<le> 1 / 256" by (simp_all add: field_simps)
  then show ?thesis by (rule abs_leI)
qed

lemma cents_near:
  assumes "0 \<le> n" and "n \<le> 50000"
  shows "\<bar>cents n - of_int n / 100\<bar> \<le> 1 / 256"
proof -
  define m :: int where "m = \<lfloor>of_int n / 100 * 256 :: rat\<rfloor>"
  have m: "of_int m \<le> of_int n / 100 * (256 :: rat)" "of_int n / 100 * (256 :: rat) \<le> of_int m + 1"
    unfolding m_def by linarith+
  have "0 \<le> m" using assms by (simp add: m_def)
  moreover have "m \<le> 200000" using m(1) assms(2) by linarith
  ultimately have small: "\<bar>of_int m :: rat\<bar> \<le> pow2 53" "\<bar>of_int (m + 1) :: rat\<bar> \<le> pow2 53"
    by (auto simp: pow2_53)
  have p: "pow2 (- 8) = 1 / 256" by (simp add: pow2_def power_int_minus)
  have grid: "f64r (of_int m / 256) = of_int m / 256" "f64r (of_int (m + 1) / 256) = of_int (m + 1) / 256"
    using fl_exact [of m 53 "- 1074" "- 8"] fl_exact [of "m + 1" 53 "- 1074" "- 8"] small
    by (simp_all add: f64r_def p)
  have "of_int m / 256 \<le> cents n"
    unfolding cents_def by (rule b64.rd_ge_fixed [OF _ grid(1)]) (use m in simp)
  moreover have "cents n \<le> of_int (m + 1) / 256"
    unfolding cents_def by (rule b64.rd_le_fixed [OF _ grid(2)]) (use m in simp)
  moreover have "of_int (m + 1) / 256 = (of_int m + 1 :: rat) / 256" by simp
  ultimately show ?thesis using m by (intro near_grid [of "of_int m"]) (simp_all only:)
qed

lemma cents_range: "1000 \<le> n \<Longrightarrow> n \<le> 50000 \<Longrightarrow> 10 \<le> cents n \<and> cents n \<le> 500"
proof -
  assume n: "1000 \<le> n" "n \<le> 50000"
  have "f64r 10 = 10" "f64r 500 = 500" using b64.rd_int [of 10] b64.rd_int [of 500] by simp_all
  with n show ?thesis
    unfolding cents_def by (auto intro!: b64.rd_ge_fixed b64.rd_le_fixed)
qed

lemma cents_fixed [simp]: "f64r (cents n) = cents n"
  by (simp add: cents_def b64.rd_idem)

lemma rne_near: "\<bar>z - of_int n\<bar> < 1 / 2 \<Longrightarrow> rne z = n"
  using rne_error [of z] by linarith

text \<open>Two decimals suffice to print it.\<close>

lemma cents_two_decimals:
  assumes "0 \<le> n" and "n \<le> 50000"
  shows "dec_at (- 2) (cents n) = of_int n / 100"
proof -
  have "\<bar>cents n * 100 - of_int n\<bar> < 1 / 2"
    using cents_near [OF assms] by (simp add: abs_less_iff abs_le_iff field_simps)
  then have "rne (cents n * 100) = n" by (rule rne_near)
  then show ?thesis by (simp add: dec_at_def power_int_minus field_simps)
qed

lemma short_exp_ge:
  "f64r (dec_at j x) = x \<Longrightarrow> j \<le> k \<Longrightarrow> k - int f \<le> j \<Longrightarrow> j \<le> short_exp f k x"
proof (induction f arbitrary: k)
  case (Suc f)
  show ?case
  proof (cases "k = j")
    case False
    with Suc.IH [of "k - 1"] Suc.prems show ?thesis by simp
  qed (use Suc.prems in simp)
qed simp

lemma short_exp_le: "short_exp f k x \<le> k"
proof (induction f arbitrary: k)
  case (Suc f)
  from Suc.IH [of "k - 1"] show ?case by simp
qed simp

lemma nat_str_length: "n < 10 ^ k \<Longrightarrow> 0 < k \<Longrightarrow> length (nat_str n) \<le> k"
proof (induction n arbitrary: k rule: nat_str.induct)
  case (1 n)
  show ?case
  proof (cases "n < 10")
    case True
    with "1.prems" show ?thesis by (simp add: nat_str.simps [of n])
  next
    case False
    have "k \<noteq> 1" using "1.prems" False by auto
    then obtain j where k: "k = Suc j" "0 < j" using "1.prems" by (cases k) auto
    with "1.prems" have "n div 10 < 10 ^ j" by (simp add: less_mult_imp_div_less)
    with "1.IH" [OF False, of j] k False show ?thesis by (simp add: nat_str.simps [of n])
  qed
qed

lemma cents_exp:
  assumes "1000 \<le> n" and "n \<le> 50000"
  shows "- 2 \<le> float_exp (cents n) \<and> float_exp (cents n) \<le> 3"
proof -
  have x: "10 \<le> cents n" "cents n \<le> 500" using cents_range [OF assms] by auto
  then have "nat \<lfloor>cents n\<rfloor> < 10 ^ 3" by (simp add: nat_less_iff floor_less_iff)
  then have l: "length (nat_str (nat \<lfloor>cents n\<rfloor>)) \<le> 3" by (rule nat_str_length) simp
  have d: "dec_at (- 2) (cents n) = of_int n / 100" using assms by (intro cents_two_decimals) auto
  have r: "f64r (dec_at (- 2) (cents n)) = cents n" unfolding d by (simp add: cents_def)
  let ?k = "int (length (nat_str (nat \<lfloor>cents n\<rfloor>)))"
  have "- 2 \<le> short_exp (nat (?k + 1074)) ?k (cents n)" by (rule short_exp_ge [OF r]) auto
  moreover have "short_exp (nat (?k + 1074)) ?k (cents n) \<le> ?k" by (rule short_exp_le)
  ultimately show ?thesis using l by (simp add: float_exp_def Let_def)
qed

lemma numlit_str_length:
  "length (numlit_str (NumLit False a b [])) \<le> length a + length b + 1"
  by (simp add: numlit_str_def)

lemma decimal_lit_length:
  assumes "0 < m" and "m < 10 ^ 5" and "- 2 \<le> k" and "k \<le> 3"
  shows "length (numlit_str (decimal_lit False m k)) \<le> 9"
proof (cases "0 \<le> k")
  case True
  have "length (nat_str m) \<le> 5" using nat_str_length [OF assms(2)] by simp
  with True assms(4) have "length (nat_str m @ replicate (nat k) (CHR ''0'')) + length [] + 1 \<le> 9" by simp
  with True numlit_str_length [of "nat_str m @ replicate (nat k) (CHR ''0'')" "[]"] show ?thesis
    unfolding decimal_lit_def if_P [OF True] by (rule_tac order_trans)
next
  case False
  define p where "p = replicate (Suc (nat (- k)) - length (nat_str m)) (CHR ''0'') @ nat_str m"
  have d: "decimal_lit False m k
      = NumLit False (take (length p - nat (- k)) p) (drop (length p - nat (- k)) p) []"
    using False by (simp add: decimal_lit_def Let_def p_def)
  have "length (take j p) + length (drop j p) = length p" for j by simp
  with numlit_str_length have "length (numlit_str (decimal_lit False m k)) \<le> length p + 1"
    unfolding d by metis
  moreover have "length p \<le> 8"
    using nat_str_length [OF assms(2)] assms(3) by (simp add: p_def)
  ultimately show ?thesis by simp
qed

lemma price_literal_short:
  assumes "1000 \<le> n" and "n \<le> 50000"
  shows "length (numlit_str (float_lit (cents n))) \<le> 9"
proof -
  let ?x = "cents n"
  let ?k = "float_exp ?x"
  have x: "10 \<le> ?x" "?x \<le> 500" using cents_range [OF assms] by auto
  note k = cents_exp [OF assms]
  have "(10 :: rat) powi (- 2) \<le> 10 powi ?k" using k by (intro power_int_increasing) auto
  then have pw: "1 / 100 \<le> (10 :: rat) powi ?k" by (simp add: power_int_minus)
  have "?x / 10 powi ?k \<le> ?x / (1 / 100)" using pw x by (intro divide_left_mono) auto
  then have "?x / 10 powi ?k \<le> of_int 50000" using x by simp
  then have up: "rne (?x / 10 powi ?k) \<le> 50000" by (rule rne_le_int)
  have lo: "0 < rne (?x / 10 powi ?k)"
  proof (rule ccontr)
    assume "\<not> 0 < rne (?x / 10 powi ?k)"
    then have "dec_at ?k ?x \<le> 0" by (simp add: dec_at_def mult_le_0_iff)
    then have "f64r (dec_at ?k ?x) \<le> 0" using b64.rd_mono [of "dec_at ?k ?x" 0] by (simp add: b64.rd_0)
    with float_exp_reads [of ?x] x show False by simp
  qed
  have "float_lit ?x = decimal_lit False (nat (rne (?x / 10 powi ?k))) ?k"
    using x by (simp add: float_lit_def Let_def)
  then show ?thesis using decimal_lit_length [of "nat (rne (?x / 10 powi ?k))" ?k] k up lo by simp
qed

end
