(* ===== verification/Events.thy ===== *)
theory Events
  imports JsonStruct
begin

text \<open>
  \<open>pkg/events/events.go\<close>: the \<open>OrderEvent\<close> that the fleet publishes to Kafka and the
  telemetry service consumes, with its JSON encoding (\<open>json.Marshal\<close>) and decoding
  (\<open>json.Unmarshal\<close> into a zero value). The cross-service contract is the round trip
  \<open>decode_encode_event\<close>.
\<close>

record order_event =
  ev_RunID :: string
  ev_OrderID :: string
  ev_SubmissionID :: string
  ev_Type :: string
  ev_Timestamp :: int
  ev_SentAt :: int
  ev_AckAt :: int
  ev_LatencyMs :: int
  ev_StatusCode :: int
  ev_IsSuccessful :: bool
  ev_ActualResponseBody :: string
  ev_ExpectedStatus :: int

definition zero_event :: order_event where
  "zero_event = \<lparr>ev_RunID = [], ev_OrderID = [], ev_SubmissionID = [], ev_Type = [],
     ev_Timestamp = 0, ev_SentAt = 0, ev_AckAt = 0, ev_LatencyMs = 0, ev_StatusCode = 0,
     ev_IsSuccessful = False, ev_ActualResponseBody = [], ev_ExpectedStatus = 0\<rparr>"

text \<open>Every integer field holds a Go \<open>int\<close> or \<open>int64\<close>.\<close>

definition event_ok :: "order_event \<Rightarrow> bool" where
  "event_ok e \<longleftrightarrow> in_int64 (ev_Timestamp e) \<and> in_int64 (ev_SentAt e) \<and> in_int64 (ev_AckAt e) \<and>
     in_int64 (ev_LatencyMs e) \<and> in_int64 (ev_StatusCode e) \<and> in_int64 (ev_ExpectedStatus e)"

definition event_json :: "order_event \<Rightarrow> json" where
  "event_json e = JObj
     [(''run_id'', JStr (ev_RunID e)),
      (''order_id'', JStr (ev_OrderID e)),
      (''submission_id'', JStr (ev_SubmissionID e)),
      (''type'', JStr (ev_Type e)),
      (''timestamp'', JNum (int_lit (ev_Timestamp e))),
      (''sent_at'', JNum (int_lit (ev_SentAt e))),
      (''ack_at'', JNum (int_lit (ev_AckAt e))),
      (''latency_ms'', JNum (int_lit (ev_LatencyMs e))),
      (''status_code'', JNum (int_lit (ev_StatusCode e))),
      (''is_successful'', JBool (ev_IsSuccessful e)),
      (''actual_response_body'', JStr (ev_ActualResponseBody e)),
      (''expected_status'', JNum (int_lit (ev_ExpectedStatus e)))]"

definition encode_event :: "order_event \<Rightarrow> string" where
  "encode_event e = json_print (event_json e)"

definition event_fields :: "order_event field list" where
  "event_fields =
     [(''run_id'', set_string (\<lambda>s. ev_RunID_update (\<lambda>_. s))),
      (''order_id'', set_string (\<lambda>s. ev_OrderID_update (\<lambda>_. s))),
      (''submission_id'', set_string (\<lambda>s. ev_SubmissionID_update (\<lambda>_. s))),
      (''type'', set_string (\<lambda>s. ev_Type_update (\<lambda>_. s))),
      (''timestamp'', set_int64 (\<lambda>i. ev_Timestamp_update (\<lambda>_. i))),
      (''sent_at'', set_int64 (\<lambda>i. ev_SentAt_update (\<lambda>_. i))),
      (''ack_at'', set_int64 (\<lambda>i. ev_AckAt_update (\<lambda>_. i))),
      (''latency_ms'', set_int64 (\<lambda>i. ev_LatencyMs_update (\<lambda>_. i))),
      (''status_code'', set_int64 (\<lambda>i. ev_StatusCode_update (\<lambda>_. i))),
      (''is_successful'', set_bool (\<lambda>b. ev_IsSuccessful_update (\<lambda>_. b))),
      (''actual_response_body'', set_string (\<lambda>s. ev_ActualResponseBody_update (\<lambda>_. s))),
      (''expected_status'', set_int64 (\<lambda>i. ev_ExpectedStatus_update (\<lambda>_. i)))]"

text \<open>\<open>json.Unmarshal(m.Value, &event)\<close> with a fresh \<open>event\<close>.\<close>

definition decode_event :: "string \<Rightarrow> order_event option" where
  "decode_event s =
     (case json_parse s of None \<Rightarrow> None | Some j \<Rightarrow> decode_struct event_fields j zero_event)"

text \<open>The event as it arrives: its strings as valid UTF-8.\<close>

definition clean_event :: "order_event \<Rightarrow> order_event" where
  "clean_event e = e\<lparr>ev_RunID := to_valid_utf8 (ev_RunID e), ev_OrderID := to_valid_utf8 (ev_OrderID e),
     ev_SubmissionID := to_valid_utf8 (ev_SubmissionID e), ev_Type := to_valid_utf8 (ev_Type e),
     ev_ActualResponseBody := to_valid_utf8 (ev_ActualResponseBody e)\<rparr>"

lemma ascii_clean [simp]: "ascii s \<Longrightarrow> to_valid_utf8 s = s"
  by (simp add: ascii_valid to_valid_utf8_id)

lemma event_json_ok: "json_ok maxNestingDepth (event_json e)"
  by (simp add: event_json_def maxNestingDepth_def)

lemma ascii_event_names [simp]:
  "ascii ''run_id''" "ascii ''order_id''" "ascii ''submission_id''" "ascii ''type''"
  "ascii ''timestamp''" "ascii ''sent_at''" "ascii ''ack_at''" "ascii ''latency_ms''"
  "ascii ''status_code''" "ascii ''is_successful''" "ascii ''actual_response_body''"
  "ascii ''expected_status''"
  by code_simp+

lemma event_json_clean: "json_clean (event_json e) = event_json (clean_event e)"
  by (simp add: event_json_def clean_event_def)

lemma fold_event_names [simp]:
  "fold_name ''run_id'' = ''RUN_ID''" "fold_name ''order_id'' = ''ORDER_ID''"
  "fold_name ''submission_id'' = ''SUBMISSION_ID''" "fold_name ''type'' = ''TYPE''"
  "fold_name ''timestamp'' = ''TIMESTAMP''" "fold_name ''sent_at'' = ''SENT_AT''"
  "fold_name ''ack_at'' = ''ACK_AT''" "fold_name ''latency_ms'' = ''LATENCY_MS''"
  "fold_name ''status_code'' = ''STATUS_CODE''" "fold_name ''is_successful'' = ''IS_SUCCESSFUL''"
  "fold_name ''actual_response_body'' = ''ACTUAL_RESPONSE_BODY''"
  "fold_name ''expected_status'' = ''EXPECTED_STATUS''"
  by (simp_all add: fold_name_map upper_char_def char_of_eq_iff take_bit_eq_mod)

lemma decode_event_json: "event_ok e \<Longrightarrow> decode_struct event_fields (event_json e) zero_event = Some e"
  by (cases e) (simp add: event_json_def event_fields_def zero_event_def event_ok_def)

text \<open>
  What the fleet encodes the telemetry service decodes: every event arrives, with its integers
  and flags unchanged and each string with the bytes that are not UTF-8 replaced by U+FFFD.
\<close>

lemma decode_encode_event:
  "event_ok e \<Longrightarrow> decode_event (encode_event e) = Some (clean_event e)"
proof -
  assume ok: "event_ok e"
  then have "event_ok (clean_event e)" by (simp add: event_ok_def clean_event_def)
  then show ?thesis
    by (simp add: decode_event_def encode_event_def json_roundtrip(1) [OF event_json_ok]
        event_json_clean decode_event_json)
qed

end
