(* ===== verification/GoSort.thy ===== *)
theory GoSort
  imports Prelude
begin

text \<open>
  Go's \<open>sort.Slice\<close>. The locale \<open>slice_sorter\<close> is its documented contract: the result is
  a permutation of the slice, sorted with respect to \<open>lt\<close> when \<open>lt\<close> is a strict
  weak order on the elements; nothing is promised about ties. The clients' facts (the head
  is a best element; where \<open>lt\<close> is total the result does not depend on the order of the
  input) are proved in the locale. \<open>sort_slice\<close> is the executable model, an insertion
  sort (what \<open>sort.Slice\<close> runs on up to twelve elements), and interprets the locale.
\<close>

definition strict_weak :: "('a \<Rightarrow> 'a \<Rightarrow> bool) \<Rightarrow> 'a set \<Rightarrow> bool" where
  "strict_weak lt A \<longleftrightarrow>
     (\<forall>x\<in>A. \<forall>y\<in>A. lt x y \<longrightarrow> \<not> lt y x) \<and>
     (\<forall>x\<in>A. \<forall>y\<in>A. \<forall>z\<in>A. \<not> lt x y \<longrightarrow> \<not> lt y z \<longrightarrow> \<not> lt x z)"

lemma strict_weak_asym: "strict_weak lt A \<Longrightarrow> x \<in> A \<Longrightarrow> y \<in> A \<Longrightarrow> lt x y \<Longrightarrow> \<not> lt y x"
  unfolding strict_weak_def by blast

lemma strict_weak_trans:
  "strict_weak lt A \<Longrightarrow> x \<in> A \<Longrightarrow> y \<in> A \<Longrightarrow> z \<in> A \<Longrightarrow> \<not> lt x y \<Longrightarrow> \<not> lt y z \<Longrightarrow> \<not> lt x z"
  unfolding strict_weak_def by blast

lemma strict_weak_subset: "strict_weak lt B \<Longrightarrow> A \<subseteq> B \<Longrightarrow> strict_weak lt A"
  unfolding strict_weak_def by blast

text \<open>Sorted for \<open>sort.Slice\<close>: no later element is less than an earlier one.\<close>

abbreviation slice_sorted :: "('a \<Rightarrow> 'a \<Rightarrow> bool) \<Rightarrow> 'a list \<Rightarrow> bool" where
  "slice_sorted lt xs \<equiv> sorted_wrt (\<lambda>x y. \<not> lt y x) xs"

text \<open>\<open>lt\<close> decides every two different elements.\<close>

definition decides :: "('a \<Rightarrow> 'a \<Rightarrow> bool) \<Rightarrow> 'a set \<Rightarrow> bool" where
  "decides lt A \<longleftrightarrow> (\<forall>x\<in>A. \<forall>y\<in>A. x \<noteq> y \<longrightarrow> lt x y \<or> lt y x)"

lemma decidesD: "decides lt A \<Longrightarrow> x \<in> A \<Longrightarrow> y \<in> A \<Longrightarrow> \<not> lt x y \<Longrightarrow> \<not> lt y x \<Longrightarrow> x = y"
  unfolding decides_def by blast

lemma slice_sorted_unique:
  "mset xs = mset ys \<Longrightarrow> slice_sorted lt xs \<Longrightarrow> slice_sorted lt ys \<Longrightarrow>
   decides lt (set xs) \<Longrightarrow> xs = ys"
proof (induction xs arbitrary: ys)
  case Nil
  then show ?case by simp
next
  case (Cons x xs)
  obtain y ys' where ys: "ys = y # ys'"
    using Cons.prems(1) by (cases ys) auto
  have sets: "set (x # xs) = set ys"
    using Cons.prems(1) by (metis set_mset_mset)
  have "x = y"
  proof (rule ccontr)
    assume "x \<noteq> y"
    with sets ys have "x \<in> set ys'" "y \<in> set xs" by auto
    with Cons.prems(2,3) ys have "\<not> lt y x" "\<not> lt x y" by auto
    with Cons.prems(4) \<open>y \<in> set xs\<close> \<open>x \<noteq> y\<close> show False
      unfolding decides_def by auto
  qed
  moreover have "decides lt (set xs)"
    using Cons.prems(4) by (simp add: decides_def)
  ultimately show ?case
    using Cons ys by auto
qed

locale slice_sorter =
  fixes sorter :: "('a \<Rightarrow> 'a \<Rightarrow> bool) \<Rightarrow> 'a list \<Rightarrow> 'a list"
  assumes sorter_mset: "mset (sorter lt xs) = mset xs"
    and sorter_sorted: "strict_weak lt (set xs) \<Longrightarrow> slice_sorted lt (sorter lt xs)"
begin

lemma sorter_set: "set (sorter lt xs) = set xs"
  by (metis sorter_mset set_mset_mset)

lemma sorter_length: "length (sorter lt xs) = length xs"
  by (metis sorter_mset size_mset)

lemma sorter_Nil_iff: "sorter lt xs = [] \<longleftrightarrow> xs = []"
  using sorter_length [of lt xs] by (cases xs) auto

lemma sorter_hd_in: "xs \<noteq> [] \<Longrightarrow> hd (sorter lt xs) \<in> set xs"
  by (metis hd_in_set sorter_Nil_iff sorter_set)

lemma sorter_hd_least:
  assumes "strict_weak lt (set xs)" and "x \<in> set xs"
  shows "\<not> lt x (hd (sorter lt xs))"
proof (cases "sorter lt xs")
  case Nil
  with assms(2) show ?thesis by (simp add: sorter_Nil_iff)
next
  case (Cons y ys)
  with assms(2) sorter_set [of lt xs] have "x = y \<or> x \<in> set ys" by auto
  moreover have "\<not> lt y y"
    using assms Cons sorter_set [of lt xs] by (metis list.set_intros(1) strict_weak_asym)
  ultimately show ?thesis
    using sorter_sorted [OF assms(1)] Cons by auto
qed

lemma sorter_perm_eq:
  assumes "mset xs = mset ys" and "strict_weak lt (set xs)" and "decides lt (set xs)"
  shows "sorter lt xs = sorter lt ys"
proof (rule slice_sorted_unique)
  have "set xs = set ys" using assms(1) by (metis set_mset_mset)
  with assms(2) show "slice_sorted lt (sorter lt ys)" by (simp add: sorter_sorted)
  show "mset (sorter lt xs) = mset (sorter lt ys)" by (simp add: assms(1) sorter_mset)
  show "slice_sorted lt (sorter lt xs)" using assms(2) by (rule sorter_sorted)
  show "decides lt (set (sorter lt xs))" using assms(3) by (simp add: sorter_set)
qed

end

text \<open>The executable model.\<close>

fun insert_slice :: "('a \<Rightarrow> 'a \<Rightarrow> bool) \<Rightarrow> 'a \<Rightarrow> 'a list \<Rightarrow> 'a list" where
  "insert_slice lt x [] = [x]"
| "insert_slice lt x (y # ys) =
     (if lt y x then y # insert_slice lt x ys else x # y # ys)"

fun sort_slice :: "('a \<Rightarrow> 'a \<Rightarrow> bool) \<Rightarrow> 'a list \<Rightarrow> 'a list" where
  "sort_slice lt [] = []"
| "sort_slice lt (x # xs) = insert_slice lt x (sort_slice lt xs)"

lemma mset_insert_slice [simp]: "mset (insert_slice lt x xs) = add_mset x (mset xs)"
  by (induction xs) auto

lemma mset_sort_slice [simp]: "mset (sort_slice lt xs) = mset xs"
  by (induction xs) auto

lemma set_insert_slice [simp]: "set (insert_slice lt x xs) = insert x (set xs)"
  by (induction xs) auto

lemma set_sort_slice [simp]: "set (sort_slice lt xs) = set xs"
  by (induction xs) auto

lemma insert_slice_sorted:
  "slice_sorted lt xs \<Longrightarrow> strict_weak lt (insert x (set xs)) \<Longrightarrow>
   slice_sorted lt (insert_slice lt x xs)"
proof (induction xs)
  case Nil
  then show ?case by simp
next
  case (Cons y ys)
  have sub: "strict_weak lt (insert x (set ys))"
    using Cons.prems(2) by (rule strict_weak_subset) auto
  show ?case
  proof (cases "lt y x")
    case True
    with Cons.prems(2) have "\<not> lt x y"
      by (metis insertI1 insert_iff list.simps(15) strict_weak_asym)
    with True Cons.prems(1) Cons.IH sub show ?thesis by auto
  next
    case False
    have "\<not> lt z x" if "z \<in> set ys" for z
      using strict_weak_trans [OF Cons.prems(2), of z y x] that False Cons.prems(1) by auto
    with False Cons.prems(1) show ?thesis by auto
  qed
qed

lemma sort_slice_sorted: "strict_weak lt (set xs) \<Longrightarrow> slice_sorted lt (sort_slice lt xs)"
proof (induction xs)
  case Nil
  then show ?case by simp
next
  case (Cons x xs)
  then have "slice_sorted lt (sort_slice lt xs)"
    by (auto intro: strict_weak_subset)
  with Cons.prems show ?case by (simp add: insert_slice_sorted)
qed

interpretation sl: slice_sorter sort_slice
  by unfold_locales (simp_all add: sort_slice_sorted)

end
