(* ===== verification/Validator.thy ===== *)
theory Validator
  imports Events GoSort
begin

text \<open>
  \<open>cmd/telemetry/validator.go\<close>: the order book the telemetry service keeps and
  \<open>ValidateOrder\<close>, which judges one event against it. A side of the book is a Go map from
  order id to resting entry; a verdict records the branch that rejected (and, for the price-time
  check, the entry the log line names). Prices are finite \<open>float64\<close> values and are only
  compared, so they are the rationals they denote.
\<close>

section \<open>Data\<close>

record target_response =
  tr_OrderID :: string
  tr_Type :: string
  tr_Side :: string
  tr_OrderedQty :: int
  tr_FilledQty :: int
  tr_Price :: rat
  tr_ExecutionPrice :: rat
  tr_Status :: string

definition zero_response :: target_response where
  "zero_response = \<lparr>tr_OrderID = [], tr_Type = [], tr_Side = [], tr_OrderedQty = 0,
     tr_FilledQty = 0, tr_Price = 0, tr_ExecutionPrice = 0, tr_Status = []\<rparr>"

definition response_fields :: "target_response field list" where
  "response_fields =
     [(''order_id'', set_string (\<lambda>s. tr_OrderID_update (\<lambda>_. s))),
      (''type'', set_string (\<lambda>s. tr_Type_update (\<lambda>_. s))),
      (''side'', set_string (\<lambda>s. tr_Side_update (\<lambda>_. s))),
      (''ordered_qty'', set_int64 (\<lambda>i. tr_OrderedQty_update (\<lambda>_. i))),
      (''filled_qty'', set_int64 (\<lambda>i. tr_FilledQty_update (\<lambda>_. i))),
      (''price'', set_float64 (\<lambda>x. tr_Price_update (\<lambda>_. x))),
      (''execution_price'', set_float64 (\<lambda>x. tr_ExecutionPrice_update (\<lambda>_. x))),
      (''status'', set_string (\<lambda>s. tr_Status_update (\<lambda>_. s)))]"

definition decode_response :: "string \<Rightarrow> target_response option" where
  "decode_response s =
     (case json_parse s of None \<Rightarrow> None | Some j \<Rightarrow> decode_struct response_fields j zero_response)"

record limit_entry =
  le_orderID :: string
  le_price :: rat
  le_qty :: int
  le_sequence :: int

record order_book =
  ob_bids :: "(string \<times> limit_entry) list"
  ob_asks :: "(string \<times> limit_entry) list"
  ob_sequence :: int

definition NewOrderBook :: order_book where
  "NewOrderBook = \<lparr>ob_bids = [], ob_asks = [], ob_sequence = 0\<rparr>"

text \<open>The branches of \<open>ValidateOrder\<close> that return false, in the order of the code.\<close>

datatype reason =
    NotSuccessful
  | WrongStatus
  | InvalidJSON
  | IdMismatch
  | NotCancelled
  | NegativeQty
  | Overfilled
  | InvalidSide
  | BuyAboveLimit
  | SellBelowLimit
  | NothingFilled
  | FullyFilledRejected
  | PriceTimeSkipped limit_entry

datatype verdict = Correct | Incorrect reason

section \<open>Price-time priority\<close>

definition ask_before :: "limit_entry \<Rightarrow> limit_entry \<Rightarrow> bool" where
  "ask_before a b =
     (if le_price a \<noteq> le_price b then le_price a < le_price b else le_sequence a < le_sequence b)"

definition bid_before :: "limit_entry \<Rightarrow> limit_entry \<Rightarrow> bool" where
  "bid_before a b =
     (if le_price a \<noteq> le_price b then le_price a > le_price b else le_sequence a < le_sequence b)"

text \<open>
  The resting entries with a better price than the execution, collected by ranging over the
  map and sorted; \<open>None\<close> is the code's \<open>true\<close>, \<open>Some best\<close> its \<open>false\<close> with the entry logged.
\<close>

definition betterAsks :: "order_book \<Rightarrow> rat \<Rightarrow> limit_entry list" where
  "betterAsks ob p = filter (\<lambda>a. le_price a < p) (map snd (ob_asks ob))"

definition betterBids :: "order_book \<Rightarrow> rat \<Rightarrow> limit_entry list" where
  "betterBids ob p = filter (\<lambda>b. le_price b > p) (map snd (ob_bids ob))"

definition validatePriceTimePriority :: "order_book \<Rightarrow> target_response \<Rightarrow> limit_entry option" where
  "validatePriceTimePriority ob resp =
     (if tr_Side resp = ''BUY'' then
        (let better = betterAsks ob (tr_ExecutionPrice resp) in
         if 0 < length better then Some (hd (sort_slice ask_before better)) else None)
      else
        (let better = betterBids ob (tr_ExecutionPrice resp) in
         if 0 < length better then Some (hd (sort_slice bid_before better)) else None))"

section \<open>Updates of the book\<close>

definition remove_order :: "string \<Rightarrow> order_book \<Rightarrow> order_book" where
  "remove_order k ob =
     ob\<lparr>ob_bids := AList.delete k (ob_bids ob), ob_asks := AList.delete k (ob_asks ob)\<rparr>"

definition rest_order :: "target_response \<Rightarrow> order_book \<Rightarrow> order_book" where
  "rest_order resp ob =
     (let sq = wrap64 (ob_sequence ob + 1);
          entry = \<lparr>le_orderID = tr_OrderID resp, le_price = tr_Price resp,
                   le_qty = tr_OrderedQty resp - tr_FilledQty resp, le_sequence = sq\<rparr>;
          ob' = ob\<lparr>ob_sequence := sq\<rparr>
      in if tr_Side resp = ''BUY''
         then ob'\<lparr>ob_bids := AList.update (tr_OrderID resp) entry (ob_bids ob')\<rparr>
         else ob'\<lparr>ob_asks := AList.update (tr_OrderID resp) entry (ob_asks ob')\<rparr>)"

section \<open>ValidateOrder\<close>

text \<open>The checks on a fill that read the response only.\<close>

definition check_fill :: "target_response \<Rightarrow> reason option" where
  "check_fill resp =
     (if tr_OrderedQty resp < 0 \<or> tr_FilledQty resp < 0 then Some NegativeQty
      else if tr_FilledQty resp > tr_OrderedQty resp then Some Overfilled
      else if tr_Side resp \<noteq> ''BUY'' \<and> tr_Side resp \<noteq> ''SELL'' then Some InvalidSide
      else if tr_Type resp = ''LIMIT'' \<and> tr_FilledQty resp > 0 \<and>
              tr_Side resp = ''BUY'' \<and> tr_ExecutionPrice resp > tr_Price resp then Some BuyAboveLimit
      else if tr_Type resp = ''LIMIT'' \<and> tr_FilledQty resp > 0 \<and>
              tr_Side resp = ''SELL'' \<and> tr_ExecutionPrice resp < tr_Price resp then Some SellBelowLimit
      else if tr_FilledQty resp = 0 \<and> tr_Status resp = ''FILLED'' then Some NothingFilled
      else if tr_FilledQty resp = tr_OrderedQty resp \<and> tr_OrderedQty resp > 0 \<and>
              tr_Status resp = ''REJECTED'' then Some FullyFilledRejected
      else None)"

text \<open>The book after a fill that passed: the remainder of a LIMIT order rests, a filled order goes.\<close>

definition settle :: "target_response \<Rightarrow> order_book \<Rightarrow> order_book" where
  "settle resp ob =
     (let ob1 = (if tr_Type resp = ''LIMIT'' \<and> tr_FilledQty resp < tr_OrderedQty resp \<and>
                    tr_Status resp \<noteq> ''REJECTED''
                 then rest_order resp ob else ob)
      in if tr_FilledQty resp = tr_OrderedQty resp then remove_order (tr_OrderID resp) ob1 else ob1)"

definition validate_fill :: "order_book \<Rightarrow> target_response \<Rightarrow> order_book \<times> verdict" where
  "validate_fill ob resp =
     (case check_fill resp of
        Some r \<Rightarrow> (ob, Incorrect r)
      | None \<Rightarrow>
          if tr_Type resp = ''LIMIT'' \<and> tr_FilledQty resp > 0 then
            (case validatePriceTimePriority ob resp of
               Some best \<Rightarrow> (ob, Incorrect (PriceTimeSkipped best))
             | None \<Rightarrow> (settle resp ob, Correct))
          else (settle resp ob, Correct))"

definition validate_response :: "order_book \<Rightarrow> order_event \<Rightarrow> target_response \<Rightarrow> order_book \<times> verdict" where
  "validate_response ob ev resp =
     (if tr_OrderID resp \<noteq> ev_OrderID ev then (ob, Incorrect IdMismatch)
      else if ev_Type ev = ''CANCEL'' then
        (if tr_Status resp \<noteq> ''cancelled'' then (ob, Incorrect NotCancelled)
         else (remove_order (ev_OrderID ev) ob, Correct))
      else validate_fill ob resp)"

definition ValidateOrder :: "order_book \<Rightarrow> order_event \<Rightarrow> order_book \<times> verdict" where
  "ValidateOrder ob ev =
     (if \<not> ev_IsSuccessful ev then (ob, Incorrect NotSuccessful)
      else if ev_StatusCode ev \<noteq> ev_ExpectedStatus ev then (ob, Incorrect WrongStatus)
      else case decode_response (ev_ActualResponseBody ev) of
             None \<Rightarrow> (ob, Incorrect InvalidJSON)
           | Some resp \<Rightarrow> validate_response ob ev resp)"

text \<open>What the caller sees: the new book and the boolean.\<close>

definition is_correct :: "verdict \<Rightarrow> bool" where
  "is_correct v \<longleftrightarrow> v = Correct"

fun validate_all :: "order_book \<Rightarrow> order_event list \<Rightarrow> order_book \<times> verdict list" where
  "validate_all ob [] = (ob, [])"
| "validate_all ob (e # es) =
     (let (ob1, v) = ValidateOrder ob e; (ob2, vs) = validate_all ob1 es in (ob2, v # vs))"

section \<open>The order of entries\<close>

lemma strict_weak_ask: "strict_weak ask_before A"
  unfolding strict_weak_def ask_before_def by (auto split: if_splits)

lemma strict_weak_bid: "strict_weak bid_before A"
  unfolding strict_weak_def bid_before_def by (auto split: if_splits)

lemma decides_ask: "inj_on le_sequence A \<Longrightarrow> decides ask_before A"
  unfolding decides_def ask_before_def inj_on_def by (metis linorder_less_linear)

lemma decides_bid: "inj_on le_sequence A \<Longrightarrow> decides bid_before A"
  unfolding decides_def bid_before_def inj_on_def by (metis linorder_less_linear)

lemma ptp_None_iff:
  "validatePriceTimePriority ob resp = None \<longleftrightarrow>
     (if tr_Side resp = ''BUY''
      then \<forall>a \<in> snd ` set (ob_asks ob). tr_ExecutionPrice resp \<le> le_price a
      else \<forall>b \<in> snd ` set (ob_bids ob). le_price b \<le> tr_ExecutionPrice resp)"
  by (auto simp: validatePriceTimePriority_def betterAsks_def betterBids_def Let_def
      filter_empty_conv not_less)

section \<open>The invariant of the book\<close>

text \<open>
  Keys are distinct and name their entries; what rests is a positive quantity; sequence
  numbers are positive, at most the book's counter, and no two entries share one.
\<close>

definition entry_ok :: "int \<Rightarrow> string \<times> limit_entry \<Rightarrow> bool" where
  "entry_ok sq ke \<longleftrightarrow> le_orderID (snd ke) = fst ke \<and> 0 < le_qty (snd ke) \<and>
     0 < le_sequence (snd ke) \<and> le_sequence (snd ke) \<le> sq"

definition resting :: "order_book \<Rightarrow> limit_entry set" where
  "resting ob = snd ` set (ob_bids ob) \<union> snd ` set (ob_asks ob)"

definition book_ok :: "order_book \<Rightarrow> bool" where
  "book_ok ob \<longleftrightarrow> gomap_ok (ob_bids ob) \<and> gomap_ok (ob_asks ob) \<and>
     list_all (entry_ok (ob_sequence ob)) (ob_bids ob) \<and>
     list_all (entry_ok (ob_sequence ob)) (ob_asks ob) \<and>
     inj_on le_sequence (resting ob) \<and> 0 \<le> ob_sequence ob"

lemma book_ok_new [simp, inv_intros]: "book_ok NewOrderBook"
  by (simp add: book_ok_def NewOrderBook_def resting_def)

lemma set_delete_subset: "set (AList.delete k m) \<subseteq> set m"
  by (auto simp: AList.delete_eq)

lemma set_update_subset: "gomap_ok m \<Longrightarrow> set (AList.update k v m) \<subseteq> insert (k, v) (set m)"
  by (auto simp: gomap_in_set go_simps split: if_splits)

lemma book_ok_seq: "book_ok ob \<Longrightarrow> e \<in> resting ob \<Longrightarrow> le_sequence e \<le> ob_sequence ob"
  by (auto simp: book_ok_def resting_def list_all_iff entry_ok_def)

lemma resting_remove: "resting (remove_order k ob) \<subseteq> resting ob"
  using set_delete_subset by (fastforce simp: resting_def remove_order_def)

lemma book_ok_remove [simp, inv_intros]: "book_ok ob \<Longrightarrow> book_ok (remove_order k ob)"
  using set_delete_subset [of k "ob_bids ob"] set_delete_subset [of k "ob_asks ob"]
    inj_on_subset [OF _ resting_remove [of k ob]]
  by (auto simp: book_ok_def list_all_iff remove_order_def)

text \<open>The entry a response rests.\<close>

definition new_entry :: "order_book \<Rightarrow> target_response \<Rightarrow> limit_entry" where
  "new_entry ob resp =
     \<lparr>le_orderID = tr_OrderID resp, le_price = tr_Price resp,
      le_qty = tr_OrderedQty resp - tr_FilledQty resp, le_sequence = wrap64 (ob_sequence ob + 1)\<rparr>"

lemma rest_order_simps:
  "ob_sequence (rest_order resp ob) = wrap64 (ob_sequence ob + 1)"
  "ob_bids (rest_order resp ob) =
     (if tr_Side resp = ''BUY''
      then AList.update (tr_OrderID resp) (new_entry ob resp) (ob_bids ob) else ob_bids ob)"
  "ob_asks (rest_order resp ob) =
     (if tr_Side resp = ''BUY'' then ob_asks ob
      else AList.update (tr_OrderID resp) (new_entry ob resp) (ob_asks ob))"
  by (simp_all add: rest_order_def new_entry_def Let_def)

lemma book_ok_rest:
  assumes ok: "book_ok ob" and small: "ob_sequence ob < 2 ^ 63 - 1"
    and q: "tr_FilledQty resp < tr_OrderedQty resp"
  shows "book_ok (rest_order resp ob)"
proof -
  let ?n = "new_entry ob resp" and ?ob = "rest_order resp ob"
  have sq: "wrap64 (ob_sequence ob + 1) = ob_sequence ob + 1"
    using ok small by (intro wrap64_succ) (auto simp: book_ok_def in_int64_def)
  have n: "entry_ok (ob_sequence ob + 1) (tr_OrderID resp, ?n)"
    using ok q by (simp add: entry_ok_def new_entry_def sq book_ok_def)
  have mono: "entry_ok (ob_sequence ob + 1) ke" if "entry_ok (ob_sequence ob) ke" for ke
    using that by (simp add: entry_ok_def)
  have b: "gomap_ok (ob_bids ob)" and a: "gomap_ok (ob_asks ob)"
    using ok by (auto simp: book_ok_def)
  have sub: "resting ?ob \<subseteq> insert ?n (resting ob)"
    using set_update_subset [OF b, of "tr_OrderID resp" ?n]
      set_update_subset [OF a, of "tr_OrderID resp" ?n]
    by (fastforce simp: resting_def rest_order_simps split: if_splits)
  have "le_sequence ?n \<noteq> le_sequence e" if "e \<in> resting ob" for e
    using book_ok_seq [OF ok that] by (simp add: new_entry_def sq)
  then have "inj_on le_sequence (insert ?n (resting ob))"
    using ok unfolding book_ok_def by (intro inj_on_insert [THEN iffD2]) auto
  then have inj: "inj_on le_sequence (resting ?ob)"
    using sub by (rule inj_on_subset)
  have "list_all (entry_ok (ob_sequence ob + 1)) m'"
    if "list_all (entry_ok (ob_sequence ob)) m" "gomap_ok m"
      "m' = m \<or> m' = AList.update (tr_OrderID resp) ?n m" for m m'
    using that n mono set_update_subset [of m "tr_OrderID resp" ?n]
    by (auto simp: list_all_iff)
  with ok inj b a show ?thesis
    by (auto simp: book_ok_def rest_order_simps sq)
qed

lemma book_ok_settle:
  "book_ok ob \<Longrightarrow> ob_sequence ob < 2 ^ 63 - 1 \<Longrightarrow> book_ok (settle resp ob)"
  by (auto simp: settle_def Let_def intro: book_ok_rest)

lemma settle_sequence:
  "ob_sequence (settle resp ob) = ob_sequence ob \<or>
   ob_sequence (settle resp ob) = wrap64 (ob_sequence ob + 1)"
  by (auto simp: settle_def Let_def remove_order_def rest_order_simps)

text \<open>Every verdict but \<open>Correct\<close> leaves the book as it was.\<close>

lemma validate_fill_cases:
  "(\<exists>r. validate_fill ob resp = (ob, Incorrect r)) \<or>
   validate_fill ob resp = (settle resp ob, Correct) \<and> check_fill resp = None \<and>
   (tr_Type resp = ''LIMIT'' \<longrightarrow> 0 < tr_FilledQty resp \<longrightarrow> validatePriceTimePriority ob resp = None)"
  by (auto simp: validate_fill_def split: option.split)

text \<open>The two ways an event is judged correct.\<close>

definition cancels :: "order_event \<Rightarrow> bool" where
  "cancels ev \<longleftrightarrow> ev_IsSuccessful ev \<and> ev_StatusCode ev = ev_ExpectedStatus ev \<and>
     ev_Type ev = ''CANCEL'' \<and>
     (case decode_response (ev_ActualResponseBody ev) of None \<Rightarrow> False
      | Some resp \<Rightarrow> tr_OrderID resp = ev_OrderID ev \<and> tr_Status resp = ''cancelled'')"

definition fills :: "order_book \<Rightarrow> order_event \<Rightarrow> target_response \<Rightarrow> bool" where
  "fills ob ev resp \<longleftrightarrow> ev_IsSuccessful ev \<and> ev_StatusCode ev = ev_ExpectedStatus ev \<and>
     ev_Type ev \<noteq> ''CANCEL'' \<and> decode_response (ev_ActualResponseBody ev) = Some resp \<and>
     tr_OrderID resp = ev_OrderID ev \<and> check_fill resp = None \<and>
     (tr_Type resp = ''LIMIT'' \<longrightarrow> 0 < tr_FilledQty resp \<longrightarrow> validatePriceTimePriority ob resp = None)"

lemma ValidateOrder_cases:
  "(\<exists>r. ValidateOrder ob ev = (ob, Incorrect r)) \<or>
   (cancels ev \<and> ValidateOrder ob ev = (remove_order (ev_OrderID ev) ob, Correct)) \<or>
   (\<exists>resp. fills ob ev resp \<and> ValidateOrder ob ev = (settle resp ob, Correct))"
proof (cases "decode_response (ev_ActualResponseBody ev)")
  case None
  then show ?thesis by (simp add: ValidateOrder_def)
next
  case (Some resp)
  with validate_fill_cases [of ob resp] show ?thesis
    unfolding ValidateOrder_def validate_response_def cancels_def fills_def by auto
qed

lemma ValidateOrder_correct_iff:
  "snd (ValidateOrder ob ev) = Correct \<longleftrightarrow> cancels ev \<or> (\<exists>resp. fills ob ev resp)"
proof
  assume "snd (ValidateOrder ob ev) = Correct"
  with ValidateOrder_cases [of ob ev] show "cancels ev \<or> (\<exists>resp. fills ob ev resp)" by auto
next
  assume "cancels ev \<or> (\<exists>resp. fills ob ev resp)"
  then show "snd (ValidateOrder ob ev) = Correct"
    by (auto simp: ValidateOrder_def validate_response_def validate_fill_def cancels_def fills_def
        split: option.splits)
qed

lemma book_ok_ValidateOrder:
  assumes "book_ok ob" and "ob_sequence ob < 2 ^ 63 - 1"
  shows "book_ok (fst (ValidateOrder ob ev))"
    and "ob_sequence (fst (ValidateOrder ob ev)) \<le> ob_sequence ob + 1"
proof -
  have sq: "wrap64 (ob_sequence ob + 1) = ob_sequence ob + 1"
    using assms by (intro wrap64_succ) (auto simp: book_ok_def in_int64_def)
  have s: "ob_sequence (settle resp ob) \<le> ob_sequence ob + 1" for resp
    using settle_sequence [of resp ob] sq by auto
  show "book_ok (fst (ValidateOrder ob ev))"
    using ValidateOrder_cases [of ob ev] assms(1) book_ok_settle [OF assms] by auto
  show "ob_sequence (fst (ValidateOrder ob ev)) \<le> ob_sequence ob + 1"
    using ValidateOrder_cases [of ob ev] s by (auto simp: remove_order_def)
qed

lemma validate_all_book_ok:
  assumes "book_ok ob" and "ob_sequence ob + int (length evs) < 2 ^ 63"
  shows "book_ok (fst (validate_all ob evs))"
  using assms
proof (induction evs arbitrary: ob)
  case Nil
  then show ?case by simp
next
  case (Cons e es)
  have "book_ok (fst (ValidateOrder ob e))"
    and "ob_sequence (fst (ValidateOrder ob e)) \<le> ob_sequence ob + 1"
    using Cons.prems by (auto intro: book_ok_ValidateOrder)
  with Cons.prems(2) Cons.IH [of "fst (ValidateOrder ob e)"] show ?case
    by (simp add: Let_def case_prod_beta)
qed

end
