(* ===== verification/ResponseJson.thy ===== *)
theory ResponseJson
  imports Validator FloatLit
begin

text \<open>
  The other direction of the response format: \<open>json.Marshal\<close> of a \<open>TargetResponse\<close>, as the
  helper \<open>makeJSON\<close> of \<open>cmd/telemetry/validator_test.go\<close> uses it (the status is omitted when
  empty), its round trip through \<open>decode_response\<close>, and the test table of that file as
  definitions, with the fact that the model gives every expected verdict.
\<close>

definition response_json :: "target_response \<Rightarrow> json" where
  "response_json r = JObj
     ([(''order_id'', JStr (tr_OrderID r)),
       (''type'', JStr (tr_Type r)),
       (''side'', JStr (tr_Side r)),
       (''ordered_qty'', JNum (int_lit (tr_OrderedQty r))),
       (''filled_qty'', JNum (int_lit (tr_FilledQty r))),
       (''price'', JNum (float_lit (tr_Price r))),
       (''execution_price'', JNum (float_lit (tr_ExecutionPrice r)))] @
      (if tr_Status r = [] then [] else [(''status'', JStr (tr_Status r))]))"

definition makeJSON :: "target_response \<Rightarrow> string" where
  "makeJSON r = json_print (response_json r)"

definition response_ok :: "target_response \<Rightarrow> bool" where
  "response_ok r \<longleftrightarrow> in_int64 (tr_OrderedQty r) \<and> in_int64 (tr_FilledQty r) \<and>
     f64_finite (Fin (tr_Price r)) \<and> f64_finite (Fin (tr_ExecutionPrice r)) \<and>
     valid_utf8 (tr_OrderID r) \<and> valid_utf8 (tr_Type r) \<and> valid_utf8 (tr_Side r) \<and>
     valid_utf8 (tr_Status r)"

lemma f64_finite_f64r: "\<bar>x\<bar> \<le> 2 ^ 1000 \<Longrightarrow> f64_finite (Fin (f64r x))"
  by (simp add: f64_finite_def b64.rd_idem f64r_limit)

lemma f64_finite_int: "\<bar>n\<bar> \<le> 2 ^ 53 \<Longrightarrow> f64_finite (Fin (of_int n))"
proof -
  assume n: "\<bar>n\<bar> \<le> 2 ^ 53"
  have "(2 :: int) ^ 53 \<le> 2 ^ 1000" by (rule power_increasing) auto
  with n have "\<bar>n\<bar> \<le> 2 ^ 1000" by linarith
  then have "\<bar>rat_of_int n\<bar> \<le> of_int (2 ^ 1000)"
    unfolding of_int_abs [symmetric] of_int_le_iff .
  then have "\<bar>rat_of_int n\<bar> \<le> 2 ^ 1000" unfolding of_int_power of_int_numeral .
  from f64_finite_f64r [OF this] show ?thesis using b64.rd_int [OF n] by simp
qed

lemma ascii_response_names [simp]:
  "ascii ''order_id''" "ascii ''type''" "ascii ''side''" "ascii ''ordered_qty''"
  "ascii ''filled_qty''" "ascii ''price''" "ascii ''execution_price''" "ascii ''status''"
  by (simp_all add: ascii_def)

lemma fold_response_names [simp]:
  "fold_name ''side'' = ''SIDE''" "fold_name ''ordered_qty'' = ''ORDERED_QTY''"
  "fold_name ''filled_qty'' = ''FILLED_QTY''" "fold_name ''price'' = ''PRICE''"
  "fold_name ''execution_price'' = ''EXECUTION_PRICE''" "fold_name ''status'' = ''STATUS''"
  by (simp_all add: fold_name_map upper_char_def char_of_eq_iff take_bit_eq_mod)

lemma f64_finite_fixed: "f64_finite (Fin x) \<Longrightarrow> f64r x = x"
  by (simp add: f64_finite_def)

lemma decode_makeJSON:
  assumes "response_ok r"
  shows "decode_response (makeJSON r) = Some r"
proof -
  have "json_ok maxNestingDepth (response_json r)"
    using assms by (simp add: response_json_def response_ok_def maxNestingDepth_def
        numlit_ok_float f64_finite_fixed)
  moreover have "json_clean (response_json r) = response_json r"
    using assms by (simp add: response_json_def response_ok_def to_valid_utf8_id)
  moreover have "decode_struct response_fields (response_json r) zero_response = Some r"
    using assms by (cases r) (simp add: response_json_def response_fields_def zero_response_def
        response_ok_def float_roundtrip)
  ultimately show ?thesis
    by (simp add: decode_response_def makeJSON_def json_roundtrip(1))
qed

section \<open>The test table of \<open>validator_test.go\<close>\<close>

definition test_event :: "int \<Rightarrow> string \<Rightarrow> string \<Rightarrow> string \<Rightarrow> order_event" where
  "test_event now oid typ body = zero_event\<lparr>ev_OrderID := oid, ev_SubmissionID := ''SUB-TEST'',
     ev_Type := typ, ev_Timestamp := now, ev_StatusCode := 200, ev_ExpectedStatus := 200,
     ev_IsSuccessful := True, ev_ActualResponseBody := body\<rparr>"

definition test_response :: "string \<Rightarrow> string \<Rightarrow> string \<Rightarrow> int \<Rightarrow> int \<Rightarrow> rat \<Rightarrow> rat \<Rightarrow> target_response" where
  "test_response oid typ side oq fq p xp = \<lparr>tr_OrderID = oid, tr_Type = typ, tr_Side = side,
     tr_OrderedQty = oq, tr_FilledQty = fq, tr_Price = f64r p, tr_ExecutionPrice = f64r xp,
     tr_Status = []\<rparr>"

definition validator_tests :: "int \<Rightarrow> (order_event \<times> bool) list" where
  "validator_tests now =
     [(test_event now ''ORD-1'' ''LIMIT''
         (makeJSON (test_response ''ORD-1'' ''LIMIT'' ''BUY'' 10 10 100 (199 / 2))), True),
      (test_event now ''ORD-2'' ''LIMIT''
         (makeJSON (test_response ''ORD-2'' ''LIMIT'' ''SELL'' 10 10 100 (201 / 2))), True),
      (test_event now ''ORD-3'' ''LIMIT''
         (makeJSON (test_response ''ORD-3'' ''LIMIT'' ''BUY'' 10 10 100 101)), False),
      (test_event now ''ORD-4'' ''LIMIT''
         (makeJSON (test_response ''ORD-4'' ''LIMIT'' ''SELL'' 10 10 100 99)), False),
      (test_event now ''ORD-5'' ''LIMIT''
         (makeJSON (test_response ''ORD-5'' ''LIMIT'' ''BUY'' 10 15 100 100)), False),
      (test_event now ''ORD-6'' ''LIMIT'' ''{ \"broken_json: true, }'', False),
      (test_event now ''ORD-7'' ''MARKET''
         (makeJSON (test_response ''ORD-7'' ''MARKET'' ''BUY'' 10 10 0 (999999 / 100))), True),
      (test_event now ''ORD-8'' ''CANCEL''
         (makeJSON (zero_response\<lparr>tr_OrderID := ''ORD-8'', tr_Type := ''CANCEL'',
            tr_Status := ''cancelled''\<rparr>)), True)]"

lemma response_ok_test:
  assumes "\<bar>p\<bar> \<le> 2 ^ 1000" "\<bar>xp\<bar> \<le> 2 ^ 1000" "in_int64 oq" "in_int64 fq"
    "ascii oid" "ascii typ" "ascii side"
  shows "response_ok (test_response oid typ side oq fq p xp)"
  using assms by (simp add: response_ok_def test_response_def f64_finite_f64r ascii_valid
      valid_utf8.simps [of "[]"])

lemma small_rat: "\<bar>x\<bar> \<le> 2 ^ 20 \<Longrightarrow> \<bar>x :: rat\<bar> \<le> 2 ^ 1000"
proof -
  assume "\<bar>x\<bar> \<le> 2 ^ 20"
  moreover have "(2 :: rat) ^ 20 \<le> 2 ^ 1000" by (rule power_increasing) auto
  ultimately show ?thesis by linarith
qed

lemma verdict_response:
  "response_ok r \<Longrightarrow> snd (ValidateOrder ob (test_event now oid typ (makeJSON r))) =
     snd (validate_response ob (test_event now oid typ []) r)"
  by (simp add: ValidateOrder_def test_event_def decode_makeJSON validate_response_def)

lemma cancelled_ok:
  "ascii oid \<Longrightarrow> response_ok (zero_response\<lparr>tr_OrderID := oid, tr_Type := ''CANCEL'', tr_Status := ''cancelled''\<rparr>)"
  by (simp add: response_ok_def zero_response_def ascii_valid ascii_def in_int64_def
      f64_finite_int [of 0, simplified] valid_utf8.simps [of "[]"])

lemma broken_json: "decode_response ''{ \"broken_json: true, }'' = None"
  by code_simp

lemma f64r_small [simp]:
  "f64r 0 = 0" "f64r 100 = 100" "f64r 99 = 99" "f64r 101 = 101"
  "f64r (199 / 2) = 199 / 2" "f64r (201 / 2) = 201 / 2"
  using b64.rd_int [of 0] b64.rd_int [of 100] b64.rd_int [of 99] b64.rd_int [of 101]
    fl_exact [of 199 53 "- 1074" "- 1"] fl_exact [of 201 53 "- 1074" "- 1"]
  by (simp_all add: f64r_def pow2_53 pow2_def power_int_def)

text \<open>The model gives the verdicts of the repository's own test table.\<close>

lemma validator_tests_pass:
  "map (\<lambda>t. is_correct (snd (ValidateOrder NewOrderBook (fst t)))) (validator_tests now)
   = map snd (validator_tests now)"
  by (simp add: validator_tests_def verdict_response response_ok_test small_rat in_int64_def
      ascii_def cancelled_ok)
    (simp add: test_event_def zero_event_def ValidateOrder_def broken_json is_correct_def
      validate_response_def validate_fill_def check_fill_def test_response_def zero_response_def
      validatePriceTimePriority_def betterAsks_def betterBids_def NewOrderBook_def)

end
