(* ===== verification/Http.thy ===== *)
theory Http
  imports JsonStruct
begin

text \<open>
  What the handlers use of \<open>net/http\<close>: the method and body of a request, and a response as its
  status and body. \<open>http.Error\<close> writes the message and a newline.
\<close>

record http_request =
  hr_Method :: string
  hr_Body :: string

record http_response =
  hw_Status :: int
  hw_Body :: string

definition http_error :: "string \<Rightarrow> int \<Rightarrow> http_response" where
  "http_error msg code = \<lparr>hw_Status = code, hw_Body = msg @ [CHR 10]\<rparr>"

lemma http_error_simps [simp]: "hw_Status (http_error msg code) = code" "hw_Body (http_error msg code) = msg @ [CHR 10]"
  by (simp_all add: http_error_def)

text \<open>JSON names of the structs of the handlers.\<close>

lemma ascii_names [simp]:
  "ascii ''id''" "ascii ''quantity''" "ascii ''cancel_target_id''" "ascii ''endpoint''"
  "ascii ''num_bots''" "ascii ''num_orders''" "ascii ''tps''" "ascii ''protocol''"
  by (simp_all add: ascii_def)

lemma fold_name_ascii_names [simp]:
  "fold_name ''id'' = ''ID''" "fold_name ''quantity'' = ''QUANTITY''"
  "fold_name ''cancel_target_id'' = ''CANCEL_TARGET_ID''" "fold_name ''endpoint'' = ''ENDPOINT''"
  "fold_name ''num_bots'' = ''NUM_BOTS''" "fold_name ''num_orders'' = ''NUM_ORDERS''"
  "fold_name ''tps'' = ''TPS''" "fold_name ''protocol'' = ''PROTOCOL''"
  by (simp_all add: fold_name_map upper_char_def char_of_eq_iff take_bit_eq_mod)

end
