(* ===== verification/Contestant.thy ===== *)
theory Contestant
  imports FleetOrders ResponseJson Http
begin

text \<open>
  \<open>test-bots/contestant.go\<close>, the reference engine: \<open>HandleOrder\<close> and \<open>HandleCancel\<close> with the map
  of orders they share under a lock, over the bodies of the HTTP requests and responses.
\<close>

record order_request =
  rq_ID :: string
  rq_Type :: string
  rq_Side :: string
  rq_Price :: rat
  rq_Quantity :: int
  rq_Timestamp :: int
  rq_CancelTargetID :: string

definition zero_request :: order_request where
  "zero_request = \<lparr>rq_ID = [], rq_Type = [], rq_Side = [], rq_Price = 0, rq_Quantity = 0,
     rq_Timestamp = 0, rq_CancelTargetID = []\<rparr>"

definition request_fields :: "order_request field list" where
  "request_fields =
     [(''id'', set_string (\<lambda>s. rq_ID_update (\<lambda>_. s))),
      (''type'', set_string (\<lambda>s. rq_Type_update (\<lambda>_. s))),
      (''side'', set_string (\<lambda>s. rq_Side_update (\<lambda>_. s))),
      (''price'', set_float64 (\<lambda>x. rq_Price_update (\<lambda>_. x))),
      (''quantity'', set_int64 (\<lambda>i. rq_Quantity_update (\<lambda>_. i))),
      (''timestamp'', set_int64 (\<lambda>i. rq_Timestamp_update (\<lambda>_. i))),
      (''cancel_target_id'', set_string (\<lambda>s. rq_CancelTargetID_update (\<lambda>_. s)))]"

text \<open>\<open>json.NewDecoder(r.Body).Decode(&req)\<close>.\<close>

definition decode_request :: "string \<Rightarrow> order_request option" where
  "decode_request body =
     (case json_decode body of None \<Rightarrow> None | Some j \<Rightarrow> decode_struct request_fields j zero_request)"

record order_response =
  rs_OrderID :: string
  rs_Type :: string
  rs_Side :: string
  rs_OrderedQty :: int
  rs_FilledQty :: int
  rs_Price :: rat
  rs_ExecutionPrice :: rat
  rs_Status :: string

definition order_response_json :: "order_response \<Rightarrow> json" where
  "order_response_json r = JObj
     ([(''order_id'', JStr (rs_OrderID r)), (''type'', JStr (rs_Type r))] @
      opt_str ''side'' (rs_Side r) @ opt_int ''ordered_qty'' (rs_OrderedQty r) @
      opt_int ''filled_qty'' (rs_FilledQty r) @ opt_float ''price'' (rs_Price r) @
      opt_float ''execution_price'' (rs_ExecutionPrice r) @ opt_str ''status'' (rs_Status r))"

record trading_engine =
  te_orders :: "(string \<times> order_request) list"

definition NewTradingEngine :: trading_engine where
  "NewTradingEngine = \<lparr>te_orders = []\<rparr>"

definition HandleOrder :: "trading_engine \<Rightarrow> http_request \<Rightarrow> trading_engine \<times> http_response" where
  "HandleOrder e r =
     (if hr_Method r \<noteq> ''POST'' then (e, http_error ''Method not allowed'' 405)
      else case decode_request (hr_Body r) of
             None \<Rightarrow> (e, http_error ''Invalid JSON'' 400)
           | Some req \<Rightarrow>
               (let e1 = e\<lparr>te_orders := AList.update (rq_ID req) req (te_orders e)\<rparr>;
                    execPrice = (if rq_Type req = ''MARKET'' then 100 else rq_Price req);
                    resp = \<lparr>rs_OrderID = rq_ID req, rs_Type = rq_Type req, rs_Side = rq_Side req,
                      rs_OrderedQty = rq_Quantity req, rs_FilledQty = rq_Quantity req,
                      rs_Price = rq_Price req, rs_ExecutionPrice = execPrice, rs_Status = []\<rparr>
                in (e1, \<lparr>hw_Status = 200, hw_Body = json_line (order_response_json resp)\<rparr>)))"

definition HandleCancel :: "trading_engine \<Rightarrow> http_request \<Rightarrow> trading_engine \<times> http_response" where
  "HandleCancel e r =
     (if hr_Method r \<noteq> ''POST'' then (e, http_error ''Method not allowed'' 405)
      else case decode_request (hr_Body r) of
             None \<Rightarrow> (e, http_error ''Invalid JSON'' 400)
           | Some req \<Rightarrow>
               (let e1 = (case map_of (te_orders e) (rq_CancelTargetID req) of
                            None \<Rightarrow> e
                          | Some _ \<Rightarrow> e\<lparr>te_orders := AList.delete (rq_CancelTargetID req) (te_orders e)\<rparr>);
                    resp = \<lparr>rs_OrderID = rq_ID req, rs_Type = ''CANCEL'', rs_Side = [],
                      rs_OrderedQty = 0, rs_FilledQty = 0, rs_Price = 0, rs_ExecutionPrice = 0,
                      rs_Status = ''cancelled''\<rparr>
                in (e1, \<lparr>hw_Status = 200, hw_Body = json_line (order_response_json resp)\<rparr>)))"

text \<open>The routes of \<open>main\<close>.\<close>

definition contestant_serve :: "trading_engine \<Rightarrow> string \<Rightarrow> http_request \<Rightarrow> trading_engine \<times> http_response" where
  "contestant_serve e path r =
     (if path = ''/order'' then HandleOrder e r
      else if path = ''/cancel'' then HandleCancel e r
      else (e, http_error ''404 page not found'' 404))"

section \<open>The requests it understands\<close>

definition order_ok :: "order \<Rightarrow> bool" where
  "order_ok r \<longleftrightarrow> in_int64 (or_Quantity r) \<and> in_int64 (or_Timestamp r) \<and> f64_finite (Fin (or_Price r)) \<and>
     valid_utf8 (or_ID r) \<and> valid_utf8 (or_Type r) \<and> valid_utf8 (or_Side r) \<and> valid_utf8 (or_CancelTargetID r)"

definition request_of :: "order \<Rightarrow> order_request" where
  "request_of r = \<lparr>rq_ID = or_ID r, rq_Type = or_Type r, rq_Side = or_Side r, rq_Price = or_Price r,
     rq_Quantity = or_Quantity r, rq_Timestamp = or_Timestamp r, rq_CancelTargetID = or_CancelTargetID r\<rparr>"

text \<open>Optional members: each is a legal member, and decoding it sets the field, zero or not.\<close>

lemma opt_ok [simp]:
  "list_all (\<lambda>kv. json_ok d (snd kv)) (opt_str n s)"
  "list_all (\<lambda>kv. json_ok d (snd kv)) (opt_int n i)"
  "f64r x = x \<Longrightarrow> list_all (\<lambda>kv. json_ok d (snd kv)) (opt_float n x)"
  by (simp_all add: opt_str_def opt_int_def opt_float_def numlit_ok_float)

lemma opt_clean [simp]:
  "ascii n \<Longrightarrow> valid_utf8 s \<Longrightarrow> map (\<lambda>kv. (to_valid_utf8 (fst kv), json_clean (snd kv))) (opt_str n s) = opt_str n s"
  "ascii n \<Longrightarrow> map (\<lambda>kv. (to_valid_utf8 (fst kv), json_clean (snd kv))) (opt_int n i) = opt_int n i"
  "ascii n \<Longrightarrow> map (\<lambda>kv. (to_valid_utf8 (fst kv), json_clean (snd kv))) (opt_float n x) = opt_float n x"
  by (simp_all add: opt_str_def opt_int_def opt_float_def to_valid_utf8_id)

lemma decode_opt_str:
  "find_field fs n = Some (set_string upd) \<Longrightarrow> (s = [] \<Longrightarrow> upd [] r = r) \<Longrightarrow>
   decode_members fs (opt_str n s @ ms) r = decode_members fs ms (upd s r)"
  by (auto simp: opt_str_def)

lemma decode_opt_int:
  "find_field fs n = Some (set_int64 upd) \<Longrightarrow> in_int64 i \<Longrightarrow> (i = 0 \<Longrightarrow> upd 0 r = r) \<Longrightarrow>
   decode_members fs (opt_int n i @ ms) r = decode_members fs ms (upd i r)"
  by (auto simp: opt_int_def)

lemma decode_opt_float:
  "find_field fs n = Some (set_float64 upd) \<Longrightarrow> f64_finite (Fin x) \<Longrightarrow> (x = 0 \<Longrightarrow> upd 0 r = r) \<Longrightarrow>
   decode_members fs (opt_float n x @ ms) r = decode_members fs ms (upd x r)"
  by (auto simp: opt_float_def float_roundtrip)

lemma decode_opt_str_last:
  "find_field fs n = Some (set_string upd) \<Longrightarrow> (s = [] \<Longrightarrow> upd [] r = r) \<Longrightarrow>
   decode_members fs (opt_str n s) r = Some (upd s r)"
  using decode_opt_str [of fs n upd s r "[]"] by simp

lemmas decode_opt = decode_opt_str decode_opt_int decode_opt_float decode_opt_str_last

lemma decode_encoded_order:
  assumes "order_ok r"
  shows "decode_request (encode_order r) = Some (request_of r)"
proof -
  have "json_ok maxNestingDepth (order_json r)"
    using assms by (simp add: order_json_def order_ok_def maxNestingDepth_def f64_finite_fixed)
  moreover have "json_clean (order_json r) = order_json r"
    using assms by (simp add: order_json_def order_ok_def to_valid_utf8_id)
  moreover have "decode_struct request_fields (order_json r) zero_request = Some (request_of r)"
    using assms by (simp add: order_json_def order_ok_def request_fields_def zero_request_def
        request_of_def decode_opt)
  ultimately show ?thesis
    by (simp add: decode_request_def encode_order_def json_roundtrip(2))
qed

text \<open>
  C26 (roundtrip). The reference engine reads back exactly the order the fleet marshalled, with
  the fields that \<open>omitempty\<close> left out at their zero value.
\<close>

theorem decode_encode_order:
  "order_ok r \<Longrightarrow> decode_request (encode_order r) = Some (request_of r)"
  by (rule decode_encoded_order)

definition sample_cancel :: order where
  "sample_cancel = \<lparr>or_ID = ''ORD-3'', or_Type = ''CANCEL'', or_Side = [], or_Price = 0, or_Quantity = 0,
     or_Timestamp = 5, or_CancelTargetID = ''ORD-1''\<rparr>"

theorem decode_encode_order_witness:
  "decode_request (encode_order sample_cancel) = Some (request_of sample_cancel)"
  by (rule decode_encode_order)
    (simp add: order_ok_def sample_cancel_def in_int64_def f64_finite_int [of 0, simplified]
      ascii_valid ascii_def valid_utf8.simps [of "[]"])

end
