(* ===== verification/JsonSize.thy ===== *)
theory JsonSize
  imports Contestant
begin

text \<open>
  How long the JSON of the reference engine is, and that it is ASCII: a worker keeps 2048 bytes
  of a response, and an event carries its strings as UTF-8, so a short ASCII answer reaches the
  telemetry service unchanged. \<open>short n s\<close> bundles the two bounds.
\<close>

definition short :: "nat \<Rightarrow> string \<Rightarrow> bool" where
  "short n s \<longleftrightarrow> ascii s \<and> length s \<le> n"

lemma short_append: "short m a \<Longrightarrow> short n b \<Longrightarrow> short (m + n) (a @ b)"
  by (simp add: short_def ascii_def)

lemma short_Cons: "byte c < 128 \<Longrightarrow> short n s \<Longrightarrow> short (Suc n) (c # s)"
  by (simp add: short_def ascii_def)

lemma short_mono: "short m s \<Longrightarrow> m \<le> n \<Longrightarrow> short n s"
  by (simp add: short_def)

lemma short_commas: "list_all (short k) xs \<Longrightarrow> short (length xs * Suc k) (commas xs)"
proof (induction xs rule: commas.induct)
  case (3 x y ys)
  then have "short (k + Suc (length (y # ys) * Suc k)) (x @ CHR '','' # commas (y # ys))"
    by (intro short_append short_Cons) auto
  then show ?case unfolding commas.simps by (rule short_mono) simp
qed (auto simp: short_def ascii_def)

section \<open>Strings\<close>

definition plain :: "char \<Rightarrow> bool" where
  "plain c \<longleftrightarrow> 32 \<le> byte c \<and> byte c < 128 \<and> c \<notin> {CHR ''\"'', CHR 92, CHR ''<'', CHR ''>'', CHR ''&''}"

lemma json_escape_plain: "list_all plain s \<Longrightarrow> json_escape s = s"
proof (induction s)
  case Nil
  then show ?case by (simp add: json_escape.simps)
next
  case (Cons c cs)
  then have "esc_ascii c = [c]" "byte c < 128" by (auto simp: plain_def esc_ascii_def)
  with Cons show ?case by (simp add: json_escape.simps [of "c # cs"])
qed

lemma plain_ascii: "list_all plain s \<Longrightarrow> ascii s"
  by (auto simp: ascii_def plain_def list_all_iff)

lemma short_quote: "list_all plain s \<Longrightarrow> length s \<le> n \<Longrightarrow> short (Suc (Suc n)) (json_quote s)"
  using plain_ascii [of s] by (simp add: json_quote_def json_escape_plain short_def ascii_def)

lemma plain_digits: "list_all is_digit s \<Longrightarrow> list_all plain s"
  by (auto simp: list_all_iff is_digit_def plain_def)

section \<open>Numbers\<close>

lemma digits_takeWhile [simp]: "list_all is_digit (takeWhile is_digit s)"
  by (induction s) auto

lemma lex_int_plain: "lex_int s = Some (i, t) \<Longrightarrow> list_all is_digit i"
  using digits_takeWhile [of s]
  by (cases s) (auto simp: lex_int_def lex_digits_def is_digit_def [of "CHR ''0''"] split: if_splits)

lemma lex_frac_plain: "lex_frac s = Some (f, t) \<Longrightarrow> list_all is_digit f"
  by (cases s) (auto simp: lex_frac_def lex_digits_def split: if_splits)

lemma lex_exp_plain: "lex_exp s = Some (e, t) \<Longrightarrow> list_all plain e"
proof -
  have "list_all plain (takeWhile is_digit u)" for u by (simp add: plain_digits)
  moreover have "list_all plain sg" if "lex_exp_sign u = (sg, v)" for u v sg
    using that by (cases u) (auto simp: lex_exp_sign_def plain_def split: if_splits)
  moreover assume "lex_exp s = Some (e, t)"
  ultimately show ?thesis
    by (cases s) (auto simp: lex_exp_def lex_digits_def plain_def split: if_splits prod.splits)
qed

lemma numlit_plain:
  assumes "numlit_ok n"
  shows "list_all plain (numlit_str n)"
proof -
  from assms obtain s1 i s2 f s3 e s4 where
    "lex_int s1 = Some (i, s2)" "lex_frac s2 = Some (f, s3)" "lex_exp s3 = Some (e, s4)"
    "nl_int n = i" "nl_frac n = f" "nl_exp n = e"
    by (auto simp: numlit_ok_def lex_number_def split: option.splits prod.splits)
  then have "list_all plain (nl_int n)" "list_all plain (nl_frac n)" "list_all plain (nl_exp n)"
    using lex_int_plain lex_frac_plain lex_exp_plain plain_digits by auto
  then show ?thesis by (simp add: numlit_str_def plain_def)
qed

lemma short_num: "numlit_ok n \<Longrightarrow> length (numlit_str n) \<le> k \<Longrightarrow> short k (json_print (JNum n))"
  using numlit_plain [of n] plain_ascii by (simp add: short_def)

lemma short_str: "list_all plain s \<Longrightarrow> length s \<le> n \<Longrightarrow> short (Suc (Suc n)) (json_print (JStr s))"
  by (simp add: short_quote)

section \<open>Objects\<close>

definition short_member :: "nat \<Rightarrow> string \<times> json \<Rightarrow> bool" where
  "short_member k kv \<longleftrightarrow> list_all plain (fst kv) \<and> length (fst kv) \<le> 20 \<and> short k (json_print (snd kv))"

lemma short_object:
  assumes "list_all (short_member k) ms"
  shows "short (length ms * (k + 24) + 2) (json_print (JObj ms))"
proof -
  let ?m = "\<lambda>kv. json_quote (fst kv) @ CHR '':'' # json_print (snd kv)"
  have one: "short (k + 23) (?m kv)" if "short_member k kv" for kv
  proof -
    have "short (Suc (Suc 20) + Suc k) (?m kv)"
      using that by (intro short_append short_Cons short_quote) (auto simp: short_member_def)
    then show ?thesis by (rule short_mono) simp
  qed
  then have "list_all (short (k + 23)) (map ?m ms)" using assms by (simp add: list_all_iff)
  from short_commas [OF this] have "short (Suc (length ms * Suc (k + 23) + Suc 0)) (json_print (JObj ms))"
    unfolding json_print.simps length_map
    by (intro short_Cons short_append) (auto simp: short_def ascii_def)
  then show ?thesis by (rule short_mono) simp
qed

end
