(* ===== verification/FleetRun.thy ===== *)
theory FleetRun
  imports Http Config Events
begin

text \<open>
  \<open>cmd/fleet/main.go\<close>: the request to run a benchmark, the guards of \<open>runHandler\<close>, which answers
  at once and starts the load test in the background, and \<open>ensureTopic\<close>. The clock of the run
  id is an input, as is how the Kafka client answers.
\<close>

record run_request =
  rn_RunID :: string
  rn_Endpoint :: string
  rn_SubmissionID :: string
  rn_NumBots :: int
  rn_NumOrders :: int
  rn_TPS :: int
  rn_Protocol :: string

definition zero_run :: run_request where
  "zero_run = \<lparr>rn_RunID = [], rn_Endpoint = [], rn_SubmissionID = [], rn_NumBots = 0,
     rn_NumOrders = 0, rn_TPS = 0, rn_Protocol = []\<rparr>"

definition run_fields :: "run_request field list" where
  "run_fields =
     [(''run_id'', set_string (\<lambda>s. rn_RunID_update (\<lambda>_. s))),
      (''endpoint'', set_string (\<lambda>s. rn_Endpoint_update (\<lambda>_. s))),
      (''submission_id'', set_string (\<lambda>s. rn_SubmissionID_update (\<lambda>_. s))),
      (''num_bots'', set_int64 (\<lambda>i. rn_NumBots_update (\<lambda>_. i))),
      (''num_orders'', set_int64 (\<lambda>i. rn_NumOrders_update (\<lambda>_. i))),
      (''tps'', set_int64 (\<lambda>i. rn_TPS_update (\<lambda>_. i))),
      (''protocol'', set_string (\<lambda>s. rn_Protocol_update (\<lambda>_. s)))]"

definition decode_run :: "string \<Rightarrow> run_request option" where
  "decode_run body =
     (case json_decode body of None \<Rightarrow> None | Some j \<Rightarrow> decode_struct run_fields j zero_run)"

definition maxNumBots :: int where "maxNumBots = 1000"

definition maxNumOrders :: int where "maxNumOrders = 1000000"

definition maxTPS :: int where "maxTPS = 50000"

definition range_msg :: "string \<Rightarrow> int \<Rightarrow> string" where
  "range_msg name limit = name @ '' must be between 1 and '' @ itoa limit"

text \<open>The response, and the run that was started, if any.\<close>

definition runHandler :: "int \<Rightarrow> http_request \<Rightarrow> http_response \<times> run_request option" where
  "runHandler now r =
     (if hr_Method r \<noteq> ''POST'' then (http_error ''Method not allowed'' 405, None)
      else case decode_run (hr_Body r) of
             None \<Rightarrow> (http_error ''Invalid request body'' 400, None)
           | Some req \<Rightarrow>
               if rn_Endpoint req = [] \<or> rn_SubmissionID req = []
               then (http_error ''Missing or invalid parameters'' 400, None)
               else if rn_NumBots req \<le> 0 \<or> rn_NumBots req > maxNumBots
               then (http_error (range_msg ''num_bots'' maxNumBots) 400, None)
               else if rn_NumOrders req \<le> 0 \<or> rn_NumOrders req > maxNumOrders
               then (http_error (range_msg ''num_orders'' maxNumOrders) 400, None)
               else if rn_TPS req \<le> 0 \<or> rn_TPS req > maxTPS
               then (http_error (range_msg ''tps'' maxTPS) 400, None)
               else let req1 = (if rn_RunID req = []
                                then req\<lparr>rn_RunID := rn_SubmissionID req @ ''-'' @ itoa now\<rparr> else req)
                    in (\<lparr>hw_Status = 202, hw_Body = ''{\"status\":\"test_started\"}''\<rparr>, Some req1))"

section \<open>What a started run satisfies\<close>

definition run_ok :: "run_request \<Rightarrow> bool" where
  "run_ok q \<longleftrightarrow> rn_RunID q \<noteq> [] \<and> rn_Endpoint q \<noteq> [] \<and> rn_SubmissionID q \<noteq> [] \<and>
     0 < rn_NumBots q \<and> rn_NumBots q \<le> maxNumBots \<and>
     0 < rn_NumOrders q \<and> rn_NumOrders q \<le> maxNumOrders \<and> 0 < rn_TPS q \<and> rn_TPS q \<le> maxTPS"

text \<open>\<open>time.Second / time.Duration(req.TPS)\<close>, in nanoseconds: a panic for 0, and \<open>NewTicker\<close>
  panics unless the period is positive.\<close>

definition ticker_period :: "run_request \<Rightarrow> int option" where
  "ticker_period q =
     (if rn_TPS q = 0 then None
      else let d = 10 ^ 9 div rn_TPS q in if d \<le> 0 then None else Some d)"

lemma runHandler_started: "snd (runHandler now r) = Some q \<Longrightarrow> run_ok q"
  by (auto simp: runHandler_def run_ok_def Let_def split: option.splits if_splits)

text \<open>
  C20 (safety). A run is started exactly when the answer is 202, and then every size is within
  its limit and the run has an id; every other request is answered 4xx and starts nothing.
\<close>

theorem runHandler_guards:
  "(snd (runHandler now r) \<noteq> None \<longleftrightarrow> hw_Status (fst (runHandler now r)) = 202) \<and>
   hw_Status (fst (runHandler now r)) \<in> {202, 400, 405} \<and>
   (case snd (runHandler now r) of None \<Rightarrow> True | Some q \<Rightarrow> run_ok q)"
  by (auto simp: runHandler_def run_ok_def Let_def split: option.splits)

lemma div_bounds: "0 < (m :: int) \<Longrightarrow> n div m * m \<le> n \<and> n < (n div m + 1) * m"
proof -
  assume m: "0 < m"
  have "n div m * m = n - n mod m" by (simp add: minus_mod_eq_div_mult)
  with pos_mod_sign [OF m, of n] pos_mod_bound [OF m, of n] show ?thesis
    unfolding distrib_right by linarith
qed

text \<open>
  A run that \<open>runHandler\<close> started has a ticker period of at least 20 microseconds,
  so neither the division nor the ticker panics, and the period is the largest that still
  gives the target rate.
\<close>

lemma started_run_ticks:
  "snd (runHandler now r) = Some q \<Longrightarrow>
   \<exists>d. ticker_period q = Some d \<and> 20000 \<le> d \<and> d * rn_TPS q \<le> 10 ^ 9 \<and> 10 ^ 9 < (d + 1) * rn_TPS q"
proof -
  assume "snd (runHandler now r) = Some q"
  then have q: "0 < rn_TPS q" "rn_TPS q \<le> 50000"
    using runHandler_started by (auto simp: run_ok_def maxTPS_def)
  let ?d = "10 ^ 9 div rn_TPS q"
  have "(10 ^ 9 :: int) div 50000 \<le> ?d" using q by (intro zdiv_mono2) auto
  then have d: "20000 \<le> ?d" by simp
  with q div_bounds [OF q(1), of "10 ^ 9"] show ?thesis by (simp add: ticker_period_def Let_def)
qed

section \<open>ensureTopic\<close>

text \<open>How the cluster answers; the topics it has, with their partitions.\<close>

record kafka_cluster =
  kf_dial :: bool
  kf_controller :: "(string \<times> int) option"
  kf_dial_controller :: "string \<Rightarrow> bool"
  kf_create :: "string \<Rightarrow> bool"
  kf_topics :: "(string \<times> nat) list"

datatype topic_error = DialBroker | FindController | DialController

definition join_host_port :: "string \<Rightarrow> string \<Rightarrow> string" where
  "join_host_port host port =
     (if CHR '':'' \<in> set host then ''['' @ host @ '']:'' @ port else host @ '':'' @ port)"

text \<open>An error of \<open>CreateTopics\<close>, which the existing topic also gives, is only logged.\<close>

definition ensureTopic :: "string \<Rightarrow> nat \<Rightarrow> kafka_cluster \<Rightarrow> kafka_cluster \<times> topic_error option" where
  "ensureTopic topic partitions k =
     (if \<not> kf_dial k then (k, Some DialBroker)
      else case kf_controller k of
             None \<Rightarrow> (k, Some FindController)
           | Some (host, port) \<Rightarrow>
               if \<not> kf_dial_controller k (join_host_port host (itoa port)) then (k, Some DialController)
               else if map_of (kf_topics k) topic = None \<and> kf_create k topic
               then (k\<lparr>kf_topics := (topic, partitions) # kf_topics k\<rparr>, None)
               else (k, None))"

lemma ensureTopic_existing:
  "map_of (kf_topics k) topic = Some n \<Longrightarrow> fst (ensureTopic topic partitions k) = k"
  by (simp add: ensureTopic_def split: option.split prod.split)

end
