(* ===== verification/FleetWorker.thy ===== *)
theory FleetWorker
  imports FleetOrders Events FleetRun
begin

text \<open>
  \<open>cmd/fleet/worker.go\<close>, one order: what \<open>worker\<close> (HTTP) and \<open>wsWorker\<close> (websocket) send, the
  \<open>OrderEvent\<close> they build from the answer, and its publication to Kafka with up to three
  calls of the writer. The network, the clocks and the Kafka writer are inputs. Marshalling an order or an
  event has no failing case here, since their numbers are finite.
\<close>

section \<open>The event of one order\<close>

text \<open>
  One HTTP exchange: whether the URL parsed, the wall clock before and after, the monotonic
  time between in nanoseconds, and the status and body read, or \<open>None\<close> when \<open>client.Do\<close> failed.
\<close>

record exchange =
  ex_url :: bool
  ex_sent :: int
  ex_ack :: int
  ex_elapsed :: int
  ex_reply :: "(int \<times> string) option"

definition order_path :: "order \<Rightarrow> string" where
  "order_path r = (if or_Type r = ''CANCEL'' then ''/cancel'' else ''/order'')"

definition bodyLimit :: nat where "bodyLimit = 2048"

text \<open>\<open>Duration.Milliseconds\<close> truncates.\<close>

definition milliseconds :: "int \<Rightarrow> int" where
  "milliseconds ns = (if ns < 0 then - (- ns div 10 ^ 6) else ns div 10 ^ 6)"

definition make_event :: "string \<Rightarrow> string \<Rightarrow> order \<Rightarrow> exchange \<Rightarrow> int \<Rightarrow> bool \<Rightarrow> string \<Rightarrow> order_event" where
  "make_event runID submissionID r ex statusCode isSuccess body =
     \<lparr>ev_RunID = runID, ev_OrderID = or_ID r, ev_SubmissionID = submissionID, ev_Type = or_Type r,
      ev_Timestamp = or_Timestamp r, ev_SentAt = ex_sent ex, ev_AckAt = ex_ack ex,
      ev_LatencyMs = milliseconds (ex_elapsed ex), ev_StatusCode = statusCode,
      ev_IsSuccessful = isSuccess, ev_ActualResponseBody = body, ev_ExpectedStatus = 200\<rparr>"

definition worker_event :: "string \<Rightarrow> string \<Rightarrow> order \<Rightarrow> exchange \<Rightarrow> order_event option" where
  "worker_event runID submissionID r ex =
     (if \<not> ex_url ex then None
      else case ex_reply ex of
             None \<Rightarrow> Some (make_event runID submissionID r ex 0 False [])
           | Some (status, body) \<Rightarrow>
               Some (make_event runID submissionID r ex status (status = 200 \<or> status = 201)
                       (take bodyLimit body)))"

text \<open>A websocket round: the write may fail (no event), then the read may.\<close>

record ws_round =
  ws_write :: bool
  ws_read :: "string option"

definition wsWorker_event :: "string \<Rightarrow> string \<Rightarrow> order \<Rightarrow> exchange \<Rightarrow> ws_round \<Rightarrow> order_event option" where
  "wsWorker_event runID submissionID r ex rd =
     (if \<not> ws_write rd then None
      else case ws_read rd of
             None \<Rightarrow> Some (make_event runID submissionID r ex 0 False [])
           | Some msg \<Rightarrow> Some (make_event runID submissionID r ex 200 True msg))"

section \<open>Publication\<close>

text \<open>
  One call of \<open>WriteMessages\<close>: how many copies of the message it leaves in the topic, and whether
  it returned nil. The writer of \<open>main.go\<close> tries up to \<open>MaxAttempts\<close> times in a call, each of which
  may store the message, and has \<open>RequiredAcks\<close> unset, which kafka-go documents as no acknowledgement:
  a call that returns nil may have stored nothing, and one that fails may have stored copies.
\<close>

definition writeMaxAttempts :: nat where "writeMaxAttempts = 5"

record write_outcome =
  wo_copies :: nat
  wo_nil :: bool

text \<open>The loop: the copies stored, whether a call returned nil, the sleeps in ms.\<close>

function publish_from :: "(nat \<Rightarrow> write_outcome) \<Rightarrow> nat \<Rightarrow> int \<Rightarrow> nat \<times> bool \<times> int list" where
  "publish_from w attempt retryDelay =
     (if attempt < 3 then
        (if wo_nil (w attempt) then (wo_copies (w attempt), True, [])
         else let (n, ok, sl) = publish_from w (attempt + 1)
                    (if attempt < 2 then retryDelay * 2 else retryDelay)
              in (wo_copies (w attempt) + n, ok, if attempt < 2 then retryDelay # sl else sl))
      else (0, False, []))"
  by pat_completeness auto
termination
  by (relation "measure (\<lambda>(w, attempt, d). 3 - attempt)") auto

declare publish_from.simps [simp del]

definition publish :: "(nat \<Rightarrow> write_outcome) \<Rightarrow> nat \<times> bool \<times> int list" where
  "publish w = publish_from w 0 100"

text \<open>The key and value of each copy stored, and whether the run counts a publish failure.\<close>

definition publish_event :: "(nat \<Rightarrow> write_outcome) \<Rightarrow> order_event \<Rightarrow> (string \<times> string) list \<times> bool" where
  "publish_event w ev =
     (let (n, ok, sl) = publish w in (replicate n (ev_RunID ev, encode_event ev), \<not> ok))"

definition work_order ::
    "string \<Rightarrow> string \<Rightarrow> order \<Rightarrow> exchange \<Rightarrow> (nat \<Rightarrow> write_outcome) \<Rightarrow> (string \<times> string) list \<times> bool" where
  "work_order runID submissionID r ex w =
     (case worker_event runID submissionID r ex of
        None \<Rightarrow> ([], False)
      | Some ev \<Rightarrow> publish_event w ev)"

definition ws_work_order ::
    "string \<Rightarrow> string \<Rightarrow> order \<Rightarrow> exchange \<Rightarrow> ws_round \<Rightarrow> (nat \<Rightarrow> write_outcome) \<Rightarrow> (string \<times> string) list \<times> bool" where
  "ws_work_order runID submissionID r ex rd w =
     (case wsWorker_event runID submissionID r ex rd of
        None \<Rightarrow> ([], False)
      | Some ev \<Rightarrow> publish_event w ev)"

section \<open>Properties\<close>

lemmas publish_unfold =
  publish_def publish_from.simps [of _ 0] publish_from.simps [of _ "Suc 0"]
  publish_from.simps [of _ "Suc (Suc 0)"] publish_from.simps [of _ "Suc (Suc (Suc 0))"]

lemma publish_cases:
  "publish w =
     (if wo_nil (w 0) then (wo_copies (w 0), True, [])
      else if wo_nil (w 1) then (wo_copies (w 0) + wo_copies (w 1), True, [100])
      else (wo_copies (w 0) + wo_copies (w 1) + wo_copies (w 2), wo_nil (w 2), [100, 200]))"
  by (simp add: publish_unfold numeral_2_eq_2)


definition retried_write :: "nat \<Rightarrow> write_outcome" where
  "retried_write k = \<lparr>wo_copies = (if k = 0 then 2 else 0), wo_nil = (k = 1)\<rparr>"


text \<open>The exchange's clock readings are \<open>int64\<close> nanoseconds; the status is an \<open>int\<close>.\<close>

definition exchange_ok :: "exchange \<Rightarrow> bool" where
  "exchange_ok ex \<longleftrightarrow> in_int64 (ex_sent ex) \<and> in_int64 (ex_ack ex) \<and> 0 \<le> ex_elapsed ex \<and> in_int64 (ex_elapsed ex) \<and>
     (case ex_reply ex of None \<Rightarrow> True | Some (status, body) \<Rightarrow> in_int64 status)"

lemma milliseconds_ok: "0 \<le> ns \<Longrightarrow> in_int64 ns \<Longrightarrow> 0 \<le> milliseconds ns \<and> in_int64 (milliseconds ns)"
  by (auto simp: milliseconds_def in_int64_def)

text \<open>
  Every event a worker builds fits the wire format, carries at most 2048 bytes of
  the response, has a latency that is not negative, and is marked successful only for status
  200 or 201; a failed exchange gives an unsuccessful event with status 0.
\<close>

lemma worker_event_sound:
  assumes "exchange_ok ex" and "in_int64 (or_Timestamp r)" and "worker_event runID sub r ex = Some ev"
  shows "event_ok ev \<and> length (ev_ActualResponseBody ev) \<le> 2048 \<and> 0 \<le> ev_LatencyMs ev \<and>
    (ev_IsSuccessful ev \<longleftrightarrow> ev_StatusCode ev = 200 \<or> ev_StatusCode ev = 201) \<and>
    (ex_reply ex = None \<longrightarrow> ev_StatusCode ev = 0)"
  using assms milliseconds_ok [of "ex_elapsed ex"]
  by (auto simp: worker_event_def make_event_def event_ok_def exchange_ok_def bodyLimit_def
      in_int64_def [of 0] in_int64_def [of 200] split: if_splits option.splits prod.splits)

definition sample_exchange :: exchange where
  "sample_exchange = \<lparr>ex_url = True, ex_sent = 10, ex_ack = 2500010, ex_elapsed = 2500000,
     ex_reply = Some (201, ''{}'')\<rparr>"

end
