(* ===== verification/LoadTest.thy ===== *)
theory LoadTest
  imports FleetWorker
begin

text \<open>
  \<open>startLoadTest\<close> of \<open>cmd/fleet/worker.go\<close> with its goroutines: the producer of orders, the token
  bucket filled by the ticker, and the pool of workers, over the buffered channels \<open>jobs\<close> and
  \<open>tokens\<close>. A step is one channel operation or one order handled; what an HTTP worker does between
  its token and its next job is \<open>work_order\<close>, since it shares nothing else and the client's timeout
  ends it. A websocket worker writes and then waits in \<open>ReadMessage\<close>, which has no deadline: its
  \<open>ws_work_order\<close> is complete only when the contestant's answer, or an error, arrives. The flag of a
  step says whether it is such an arrival.
\<close>

datatype bot = Dialing | Idle | Waiting order | Sending order | Awaiting order | Draining | Exited

record load =
  ld_next :: int
  ld_jobs :: "order list"
  ld_closed :: bool
  ld_tokens :: nat
  ld_bots :: "bot list"
  ld_log :: "(string \<times> string) list"
  ld_failures :: nat
  ld_ticks :: nat
  ld_issued :: "order list"
  ld_handled :: "order list"
  ld_drained :: "order list"

text \<open>The last four fields record what happened: ticks, orders generated, handled, thrown away.\<close>

definition is_ws :: "run_request \<Rightarrow> bool" where
  "is_ws q \<longleftrightarrow> rn_Protocol q = ''websocket''"

definition load_start :: "run_request \<Rightarrow> load" where
  "load_start q = \<lparr>ld_next = 1, ld_jobs = [], ld_closed = False, ld_tokens = 0,
     ld_bots = replicate (nat (rn_NumBots q)) (if is_ws q then Dialing else Idle),
     ld_log = [], ld_failures = 0, ld_ticks = 0, ld_issued = [], ld_handled = [], ld_drained = []\<rparr>"

text \<open>The tick that the \<open>select\<close> with \<open>default\<close> drops when the bucket is full.\<close>

definition tick :: "run_request \<Rightarrow> load \<Rightarrow> load" where
  "tick q s = s\<lparr>ld_tokens := (if int (ld_tokens s) < rn_TPS q then ld_tokens s + 1 else ld_tokens s),
     ld_ticks := ld_ticks s + 1\<rparr>"

definition set_bot :: "nat \<Rightarrow> bot \<Rightarrow> load \<Rightarrow> load" where
  "set_bot i b s = s\<lparr>ld_bots := (ld_bots s)[i := b]\<rparr>"

text \<open>One order done: its messages are in the topic, the failure counter is raised.\<close>

definition handled :: "nat \<Rightarrow> order \<Rightarrow> (string \<times> string) list \<times> bool \<Rightarrow> load \<Rightarrow> load" where
  "handled i r res s = set_bot i Idle (s\<lparr>ld_log := ld_log s @ fst res,
     ld_failures := ld_failures s + (if snd res then 1 else 0), ld_handled := ld_handled s @ [r]\<rparr>)"

text \<open>All steps but the ticker's.\<close>

inductive work_step :: "run_request \<Rightarrow> bool \<Rightarrow> load \<Rightarrow> load \<Rightarrow> bool" for q :: run_request where
  Enqueue: "ld_next s \<le> rn_NumOrders q \<Longrightarrow> int (length (ld_jobs s)) < rn_NumOrders q \<Longrightarrow> draws_ok d \<Longrightarrow>
    work_step q False s (s\<lparr>ld_jobs := ld_jobs s @ [generateOrder d (ld_next s)], ld_next := ld_next s + 1,
      ld_issued := ld_issued s @ [generateOrder d (ld_next s)]\<rparr>)"
| Close: "rn_NumOrders q < ld_next s \<Longrightarrow> \<not> ld_closed s \<Longrightarrow> work_step q False s (s\<lparr>ld_closed := True\<rparr>)"
| Dialed: "i < length (ld_bots s) \<Longrightarrow> ld_bots s ! i = Dialing \<Longrightarrow> work_step q False s (set_bot i Idle s)"
| DialFailed: "i < length (ld_bots s) \<Longrightarrow> ld_bots s ! i = Dialing \<Longrightarrow> work_step q False s (set_bot i Draining s)"
| TakeJob: "i < length (ld_bots s) \<Longrightarrow> ld_bots s ! i = Idle \<Longrightarrow> ld_jobs s = r # rs \<Longrightarrow>
    work_step q False s (set_bot i (Waiting r) (s\<lparr>ld_jobs := rs\<rparr>))"
| TakeToken: "i < length (ld_bots s) \<Longrightarrow> ld_bots s ! i = Waiting r \<Longrightarrow> 0 < ld_tokens s \<Longrightarrow>
    work_step q False s (set_bot i (Sending r) (s\<lparr>ld_tokens := ld_tokens s - 1\<rparr>))"
| Handle: "i < length (ld_bots s) \<Longrightarrow> ld_bots s ! i = Sending r \<Longrightarrow> \<not> is_ws q \<Longrightarrow> exchange_ok ex \<Longrightarrow>
    work_step q False s (handled i r (work_order (rn_RunID q) (rn_SubmissionID q) r ex w) s)"
| WsWriteFailed: "i < length (ld_bots s) \<Longrightarrow> ld_bots s ! i = Sending r \<Longrightarrow> is_ws q \<Longrightarrow> \<not> ws_write rd \<Longrightarrow>
    work_step q False s (handled i r (ws_work_order (rn_RunID q) (rn_SubmissionID q) r ex rd w) s)"
| WsWritten: "i < length (ld_bots s) \<Longrightarrow> ld_bots s ! i = Sending r \<Longrightarrow> is_ws q \<Longrightarrow>
    work_step q False s (set_bot i (Awaiting r) s)"
| WsAnswer: "i < length (ld_bots s) \<Longrightarrow> ld_bots s ! i = Awaiting r \<Longrightarrow> is_ws q \<Longrightarrow> exchange_ok ex \<Longrightarrow> ws_write rd \<Longrightarrow>
    work_step q True s (handled i r (ws_work_order (rn_RunID q) (rn_SubmissionID q) r ex rd w) s)"
| Drain: "i < length (ld_bots s) \<Longrightarrow> ld_bots s ! i = Draining \<Longrightarrow> ld_jobs s = r # rs \<Longrightarrow>
    work_step q False s (s\<lparr>ld_jobs := rs, ld_drained := ld_drained s @ [r]\<rparr>)"
| Exit: "i < length (ld_bots s) \<Longrightarrow> ld_bots s ! i \<in> {Idle, Draining} \<Longrightarrow> ld_jobs s = [] \<Longrightarrow> ld_closed s \<Longrightarrow>
    work_step q False s (set_bot i Exited s)"

inductive load_reach :: "run_request \<Rightarrow> load \<Rightarrow> bool" for q :: run_request where
  start: "load_reach q (load_start q)"
| tick: "load_reach q s \<Longrightarrow> load_reach q (tick q s)"
| work: "load_reach q s \<Longrightarrow> work_step q peer s s' \<Longrightarrow> load_reach q s'"

inductive_cases work_stepE: "work_step q peer s s'"

text \<open>\<open>wg.Wait()\<close> has returned; the error \<open>startLoadTest\<close> then returns, by its count.\<close>

definition finished :: "load \<Rightarrow> bool" where
  "finished s \<longleftrightarrow> list_all (\<lambda>b. b = Exited) (ld_bots s)"

definition load_result :: "load \<Rightarrow> nat option" where
  "load_result s = (if ld_failures s > 0 then Some (ld_failures s) else None)"

section \<open>Conservation\<close>

fun bot_order :: "bot \<Rightarrow> order multiset" where
  "bot_order (Waiting r) = {#r#}"
| "bot_order (Sending r) = {#r#}"
| "bot_order (Awaiting r) = {#r#}"
| "bot_order _ = {#}"

fun bot_sending :: "bot \<Rightarrow> nat" where
  "bot_sending (Sending r) = 1"
| "bot_sending (Awaiting r) = 1"
| "bot_sending _ = 0"

definition in_hand :: "load \<Rightarrow> order multiset" where
  "in_hand s = (\<Sum>b\<leftarrow>ld_bots s. bot_order b)"

text \<open>Updating one bot changes a sum over the bots at one place.\<close>

lemma sum_list_set:
  fixes f :: "'a \<Rightarrow> 'b :: cancel_comm_monoid_add"
  shows "i < length xs \<Longrightarrow> (\<Sum>x\<leftarrow>xs[i := y]. f x) + f (xs ! i) = (\<Sum>x\<leftarrow>xs. f x) + f y"
proof (induction xs arbitrary: i)
  case (Cons a xs)
  then show ?case by (cases i) (simp_all add: ac_simps)
qed simp

definition orders_kept :: "load \<Rightarrow> bool" where
  "orders_kept s \<longleftrightarrow>
     mset (ld_issued s) = mset (ld_jobs s) + in_hand s + mset (ld_handled s) + mset (ld_drained s)"

definition issued_in_order :: "run_request \<Rightarrow> load \<Rightarrow> bool" where
  "issued_in_order q s \<longleftrightarrow> map or_ID (ld_issued s) = map ord_id [1..ld_next s - 1] \<and>
     1 \<le> ld_next s \<and> (0 \<le> rn_NumOrders q \<longrightarrow> ld_next s \<le> rn_NumOrders q + 1) \<and>
     (ld_closed s \<longrightarrow> rn_NumOrders q < ld_next s)"

definition paced :: "run_request \<Rightarrow> load \<Rightarrow> bool" where
  "paced q s \<longleftrightarrow> int (ld_tokens s) \<le> max 0 (rn_TPS q) \<and>
     length (ld_handled s) + (\<Sum>b\<leftarrow>ld_bots s. bot_sending b) + ld_tokens s \<le> ld_ticks s \<and>
     ld_failures s \<le> length (ld_handled s)"

lemma or_ID_generate [simp]: "or_ID (generateOrder d i) = ord_id i"
  by (simp add: generateOrder_def Let_def)

lemma sum_replicate_0: "f b = 0 \<Longrightarrow> (\<Sum>x\<leftarrow>replicate n b. f x) = (0 :: 'b :: comm_monoid_add)"
  by (induction n) simp_all

lemma sum_empties [simp]: "sum_list (replicate n {#}) = {#}"
  by (induction n) simp_all

lemma bot_order_free: "b \<in> {Dialing, Idle, Draining, Exited} \<Longrightarrow> bot_order b = {#}"
  by auto

text \<open>How one bot's move changes what is in hand.\<close>

lemma in_hand_moves:
  assumes "i < length bs"
  shows "bs ! i \<in> {Dialing, Idle, Draining, Exited} \<Longrightarrow>
      (\<Sum>b\<leftarrow>bs[i := b']. bot_order b) = bot_order b' + (\<Sum>b\<leftarrow>bs. bot_order b)"
    and "bs ! i = Waiting r \<Longrightarrow> (\<Sum>b\<leftarrow>bs[i := Sending r]. bot_order b) = (\<Sum>b\<leftarrow>bs. bot_order b)"
    and "bs ! i \<in> {Sending r, Awaiting r} \<Longrightarrow> (\<Sum>b\<leftarrow>bs. bot_order b) = add_mset r (\<Sum>b\<leftarrow>bs[i := Idle]. bot_order b)"
    and "bs ! i = Sending r \<Longrightarrow> (\<Sum>b\<leftarrow>bs[i := Awaiting r]. bot_order b) = (\<Sum>b\<leftarrow>bs. bot_order b)"
  using sum_list_set [OF assms, of bot_order b'] sum_list_set [OF assms, of bot_order "Sending r"]
    sum_list_set [OF assms, of bot_order "Awaiting r"]
    sum_list_set [OF assms, of bot_order Idle] bot_order_free [of "bs ! i"]
  by (auto simp: ac_simps)

lemma sending_moves:
  assumes "i < length bs"
  shows "bs ! i \<in> {Dialing, Idle, Draining, Exited} \<Longrightarrow> b' \<in> {Idle, Draining, Exited, Waiting r} \<Longrightarrow>
      (\<Sum>b\<leftarrow>bs[i := b']. bot_sending b) = (\<Sum>b\<leftarrow>bs. bot_sending b)"
    and "bs ! i = Waiting r \<Longrightarrow> (\<Sum>b\<leftarrow>bs[i := Sending r]. bot_sending b) = (\<Sum>b\<leftarrow>bs. bot_sending b) + 1"
    and "bs ! i \<in> {Sending r, Awaiting r} \<Longrightarrow> (\<Sum>b\<leftarrow>bs. bot_sending b) = (\<Sum>b\<leftarrow>bs[i := Idle]. bot_sending b) + 1"
    and "bs ! i = Sending r \<Longrightarrow> (\<Sum>b\<leftarrow>bs[i := Awaiting r]. bot_sending b) = (\<Sum>b\<leftarrow>bs. bot_sending b)"
  using sum_list_set [OF assms, of bot_sending b'] sum_list_set [OF assms, of bot_sending "Sending r"]
    sum_list_set [OF assms, of bot_sending "Awaiting r"]
    sum_list_set [OF assms, of bot_sending Idle]
  by auto

lemma orders_kept_start [inv_intros]: "orders_kept (load_start q)"
  by (simp add: orders_kept_def load_start_def in_hand_def sum_replicate_0)

lemma orders_kept_tick [inv_intros]: "orders_kept s \<Longrightarrow> orders_kept (tick q s)"
  by (simp add: orders_kept_def tick_def in_hand_def)

lemma orders_kept_work [inv_intros]: "orders_kept s \<Longrightarrow> work_step q peer s s' \<Longrightarrow> orders_kept s'"
  by (erule work_stepE)
    (auto simp: orders_kept_def in_hand_def set_bot_def handled_def in_hand_moves(1,2,4)
      dest: in_hand_moves(3))

lemma upto_snoc: "1 \<le> n \<Longrightarrow> [1..n] = [1..n - 1] @ [n]"
  by (rule upto_rec2)

lemma issued_start [inv_intros]: "issued_in_order q (load_start q)"
  by (simp add: issued_in_order_def load_start_def)

lemma issued_tick [inv_intros]: "issued_in_order q s \<Longrightarrow> issued_in_order q (tick q s)"
  by (simp add: issued_in_order_def tick_def)

lemma issued_work [inv_intros]: "issued_in_order q s \<Longrightarrow> work_step q peer s s' \<Longrightarrow> issued_in_order q s'"
  by (erule work_stepE)
    (auto simp: issued_in_order_def set_bot_def handled_def upto_snoc [of "ld_next s"])

lemma paced_start [inv_intros]: "paced q (load_start q)"
  by (simp add: paced_def load_start_def sum_replicate_0)

lemma paced_tick [inv_intros]: "paced q s \<Longrightarrow> paced q (tick q s)"
  by (auto simp: paced_def tick_def)

lemma paced_work [inv_intros]: "paced q s \<Longrightarrow> work_step q peer s s' \<Longrightarrow> paced q s'"
  by (erule work_stepE)
    (auto simp: paced_def set_bot_def handled_def sending_moves(1,2,4) dest: sending_moves(3))

lemma load_reach_inv: "load_reach q s \<Longrightarrow> orders_kept s \<and> issued_in_order q s \<and> paced q s"
  by (induction rule: load_reach.induct) (auto intro: inv_intros)

section \<open>The end of a run\<close>

definition exits_ok :: "run_request \<Rightarrow> load \<Rightarrow> bool" where
  "exits_ok q s \<longleftrightarrow> length (ld_bots s) = nat (rn_NumBots q) \<and>
     (Exited \<in> set (ld_bots s) \<longrightarrow> ld_closed s \<and> ld_jobs s = []) \<and>
     (ld_closed s \<longrightarrow> rn_NumOrders q < ld_next s) \<and>
     (\<not> is_ws q \<longrightarrow> ld_drained s = [] \<and> Dialing \<notin> set (ld_bots s) \<and> Draining \<notin> set (ld_bots s) \<and>
       (\<forall>r. Awaiting r \<notin> set (ld_bots s))) \<and>
     (ld_handled s = [] \<longrightarrow> ld_log s = [])"

lemma in_set_update: "x \<in> set (xs[i := y]) \<Longrightarrow> x = y \<or> x \<in> set xs"
  using set_update_subset_insert [of xs i y] by auto

lemma exits_start [inv_intros]: "exits_ok q (load_start q)"
  by (auto simp: exits_ok_def load_start_def)

lemma exits_tick [inv_intros]: "exits_ok q s \<Longrightarrow> exits_ok q (tick q s)"
  by (simp add: exits_ok_def tick_def)

lemma bot_in_set: "i < length xs \<Longrightarrow> xs ! i = b \<Longrightarrow> b \<in> set xs"
  by auto

lemma exits_work [inv_intros]: "exits_ok q s \<Longrightarrow> work_step q peer s s' \<Longrightarrow> exits_ok q s'"
  by (erule work_stepE; (frule (1) bot_in_set)?)
    (auto simp: exits_ok_def set_bot_def handled_def dest!: in_set_update)

definition generated :: "run_request \<Rightarrow> order \<Rightarrow> bool" where
  "generated q r \<longleftrightarrow> (\<exists>d i. draws_ok d \<and> 1 \<le> i \<and> i \<le> rn_NumOrders q \<and> r = generateOrder d i)"

definition all_generated :: "run_request \<Rightarrow> load \<Rightarrow> bool" where
  "all_generated q s \<longleftrightarrow> list_all (generated q) (ld_issued s)"

lemma all_generated_work:
  "issued_in_order q s \<Longrightarrow> all_generated q s \<Longrightarrow> work_step q peer s s' \<Longrightarrow> all_generated q s'"
  by (erule work_stepE)
    (auto simp: all_generated_def set_bot_def handled_def generated_def issued_in_order_def)

text \<open>The messages of the topic.\<close>

definition fleet_message :: "run_request \<Rightarrow> string \<times> string \<Rightarrow> bool" where
  "fleet_message q m \<longleftrightarrow> (\<exists>ev. event_ok ev \<and> m = (rn_RunID q, encode_event ev) \<and>
     ev_RunID ev = rn_RunID q \<and> ev_SubmissionID ev = rn_SubmissionID q)"

definition log_ok :: "run_request \<Rightarrow> load \<Rightarrow> bool" where
  "log_ok q s \<longleftrightarrow> list_all (fleet_message q) (ld_log s)"

lemma timestamp_generated: "generated q r \<Longrightarrow> in_int64 (or_Timestamp r)"
  by (auto simp: generated_def generateOrder_def draws_ok_def Let_def)

lemma event_ok_made:
  "exchange_ok ex \<Longrightarrow> in_int64 (or_Timestamp r) \<Longrightarrow> in_int64 st \<Longrightarrow> event_ok (make_event run sub r ex st ok body)"
  using milliseconds_ok [of "ex_elapsed ex"]
  by (auto simp: make_event_def event_ok_def exchange_ok_def in_int64_def [of 200])

lemma publish_event_messages:
  "m \<in> set (fst (publish_event w ev)) \<Longrightarrow> m = (ev_RunID ev, encode_event ev)"
  by (auto simp: publish_event_def split: prod.splits)

lemma built_event:
  assumes "exchange_ok ex" and "in_int64 (or_Timestamp r)"
  shows "worker_event run sub r ex = Some ev \<Longrightarrow> event_ok ev \<and> ev_RunID ev = run \<and> ev_SubmissionID ev = sub"
    and "wsWorker_event run sub r ex rd = Some ev \<Longrightarrow> event_ok ev \<and> ev_RunID ev = run \<and> ev_SubmissionID ev = sub"
proof -
  have made: "event_ok (make_event run sub r ex st ok body)" if "in_int64 st" for st ok body
    using assms that by (rule event_ok_made)
  have ids: "ev_RunID (make_event run sub r ex st ok body) = run"
    "ev_SubmissionID (make_event run sub r ex st ok body) = sub" for st ok body
    by (simp_all add: make_event_def)
  show "worker_event run sub r ex = Some ev \<Longrightarrow> event_ok ev \<and> ev_RunID ev = run \<and> ev_SubmissionID ev = sub"
    using assms(1) by (auto simp: worker_event_def exchange_ok_def ids in_int64_def [of 0] intro!: made
        split: if_splits option.splits)
  show "wsWorker_event run sub r ex rd = Some ev \<Longrightarrow> event_ok ev \<and> ev_RunID ev = run \<and> ev_SubmissionID ev = sub"
    by (auto simp: wsWorker_event_def ids in_int64_def [of 0] in_int64_def [of 200] intro!: made
        split: if_splits option.splits)
qed

lemma work_order_messages:
  assumes "exchange_ok ex" and "in_int64 (or_Timestamp r)"
  shows "m \<in> set (fst (work_order (rn_RunID q) (rn_SubmissionID q) r ex w)) \<Longrightarrow> fleet_message q m"
    and "m \<in> set (fst (ws_work_order (rn_RunID q) (rn_SubmissionID q) r ex rd w)) \<Longrightarrow> fleet_message q m"
  unfolding fleet_message_def
  by (auto simp: work_order_def ws_work_order_def split: option.splits
      dest!: publish_event_messages dest: built_event [OF assms])

lemma sending_issued:
  assumes "orders_kept s" and "Sending r \<in> set (ld_bots s) \<or> Awaiting r \<in> set (ld_bots s)"
  shows "r \<in> set (ld_issued s)"
proof -
  obtain i where "i < length (ld_bots s)" "ld_bots s ! i \<in> {Sending r, Awaiting r}"
    using assms(2) by (auto simp: in_set_conv_nth)
  from in_hand_moves(3) [OF this] have "r \<in># in_hand s" by (simp add: in_hand_def)
  then have "r \<in># mset (ld_issued s)" using assms(1) by (simp add: orders_kept_def)
  then show ?thesis by simp
qed

lemma log_ok_work:
  assumes "orders_kept s" and "all_generated q s" and log: "log_ok q s" and "work_step q peer s s'"
  shows "log_ok q s'"
proof -
  have ts: "in_int64 (or_Timestamp r)" if "Sending r \<in> set (ld_bots s) \<or> Awaiting r \<in> set (ld_bots s)" for r
    using sending_issued [OF assms(1) that] assms(2) timestamp_generated
    by (auto simp: all_generated_def list_all_iff)
  have msgs: "list_all (fleet_message q) (fst (work_order (rn_RunID q) (rn_SubmissionID q) r ex w)) \<and>
      list_all (fleet_message q) (fst (ws_work_order (rn_RunID q) (rn_SubmissionID q) r ex rd w))"
    if "i < length (ld_bots s)" "ld_bots s ! i \<in> {Sending r, Awaiting r}" "exchange_ok ex" for i r ex rd w
  proof -
    have "Sending r \<in> set (ld_bots s) \<or> Awaiting r \<in> set (ld_bots s)"
      using that(2) nth_mem [OF that(1)] by auto
    from work_order_messages [OF that(3) ts [OF this]] show ?thesis unfolding list_all_iff by blast
  qed
  have unsent: "\<not> ws_write rd \<Longrightarrow> fst (ws_work_order run sub r ex rd w) = []" for run sub r ex rd w
    by (simp add: ws_work_order_def wsWorker_event_def)
  from assms(4) show ?thesis
    by (rule work_stepE)
      (use log in \<open>simp_all add: log_ok_def handled_def set_bot_def msgs unsent\<close>)
qed

lemma load_reach_all:
  "load_reach q s \<Longrightarrow> orders_kept s \<and> issued_in_order q s \<and> paced q s \<and> exits_ok q s \<and>
     all_generated q s \<and> log_ok q s"
proof (induction rule: load_reach.induct)
  case start
  show ?case by (auto intro: inv_intros simp: all_generated_def log_ok_def) (simp_all add: load_start_def)
next
  case (tick s)
  then show ?case by (auto intro: inv_intros simp: all_generated_def log_ok_def) (simp_all add: tick_def)
next
  case (work s s')
  then show ?case by (auto intro: inv_intros all_generated_work log_ok_work)
qed

section \<open>Progress\<close>

text \<open>What is left to do: generating and queueing orders, passing them through a bot, stopping the bots.\<close>

fun bot_work :: "bot \<Rightarrow> nat" where
  "bot_work Dialing = 2"
| "bot_work Idle = 1"
| "bot_work (Waiting r) = 4"
| "bot_work (Sending r) = 3"
| "bot_work (Awaiting r) = 2"
| "bot_work Draining = 1"
| "bot_work Exited = 0"

definition load_work :: "run_request \<Rightarrow> load \<Rightarrow> nat" where
  "load_work q s = 5 * nat (rn_NumOrders q + 1 - ld_next s) + 4 * length (ld_jobs s) +
     (\<Sum>b\<leftarrow>ld_bots s. bot_work b) + (if ld_closed s then 0 else 1)"

lemma bot_work_update:
  "i < length bs \<Longrightarrow> bs ! i = b \<Longrightarrow>
   (\<Sum>x\<leftarrow>bs[i := b']. bot_work x) + bot_work b = (\<Sum>x\<leftarrow>bs. bot_work x) + bot_work b'"
  using sum_list_set [of i bs bot_work b'] by simp

lemma work_decreases: "work_step q peer s s' \<Longrightarrow> load_work q s' < load_work q s"
proof (induction rule: work_step.induct)
  case (Exit i s)
  then show ?case
    using bot_work_update [of i "ld_bots s" Idle Exited] bot_work_update [of i "ld_bots s" Draining Exited]
    by (auto simp: load_work_def set_bot_def)
next
  case (Enqueue s d)
  then have "nat (rn_NumOrders q + 1 - ld_next s) = nat (rn_NumOrders q + 1 - (ld_next s + 1)) + 1" by simp
  with Enqueue show ?case by (simp add: load_work_def)
next
  case (Dialed i s)
  then show ?case using bot_work_update [of i "ld_bots s" Dialing Idle] by (simp add: load_work_def set_bot_def)
next
  case (DialFailed i s)
  then show ?case using bot_work_update [of i "ld_bots s" Dialing Draining] by (simp add: load_work_def set_bot_def)
next
  case (TakeJob i s r rs)
  then show ?case
    using bot_work_update [of i "ld_bots s" Idle "Waiting r"] by (simp add: load_work_def set_bot_def)
next
  case (TakeToken i s r)
  then show ?case
    using bot_work_update [of i "ld_bots s" "Waiting r" "Sending r"] by (simp add: load_work_def set_bot_def)
next
  case (Handle i s r ex w)
  then show ?case
    using bot_work_update [of i "ld_bots s" "Sending r" Idle] by (simp add: load_work_def set_bot_def handled_def)
next
  case (WsWriteFailed i s r rd ex w)
  then show ?case
    using bot_work_update [of i "ld_bots s" "Sending r" Idle] by (simp add: load_work_def set_bot_def handled_def)
next
  case (WsWritten i s r)
  then show ?case
    using bot_work_update [of i "ld_bots s" "Sending r" "Awaiting r"] by (simp add: load_work_def set_bot_def)
next
  case (WsAnswer i s r ex rd w)
  then show ?case
    using bot_work_update [of i "ld_bots s" "Awaiting r" Idle] by (simp add: load_work_def set_bot_def handled_def)
qed (simp_all add: load_work_def)

definition some_draws :: draws where
  "some_draws = \<lparr>dr_roll = 0, dr_target = (\<lambda>_. 0), dr_side = 0, dr_price = 0, dr_quantity = 0, dr_now = 0\<rparr>"

definition some_exchange :: exchange where
  "some_exchange = \<lparr>ex_url = True, ex_sent = 0, ex_ack = 0, ex_elapsed = 0, ex_reply = None\<rparr>"

lemma some_inputs [simp]: "draws_ok some_draws" "exchange_ok some_exchange"
  by (simp_all add: draws_ok_def some_draws_def exchange_ok_def some_exchange_def in_int64_def)

lemma bot_moves:
  assumes i: "i < length (ld_bots s)" and live: "ld_bots s ! i \<noteq> Exited" "\<And>r. ld_bots s ! i \<noteq> Awaiting r" and closed: "ld_closed s"
    and token: "0 < ld_tokens s"
  shows "\<exists>s'. work_step q False s s'"
proof (cases "ld_bots s ! i")
  case Dialing
  with i show ?thesis by (blast intro: work_step.Dialed)
next
  case (Waiting r)
  with i token show ?thesis by (blast intro: work_step.TakeToken)
next
  case (Sending r)
  with i some_inputs(2) show ?thesis by (cases "is_ws q") (blast intro: work_step.Handle work_step.WsWritten)+
next
  case Idle
  with i closed show ?thesis
    by (cases "ld_jobs s") (blast intro: work_step.Exit work_step.TakeJob)+
next
  case Draining
  with i closed show ?thesis
    by (cases "ld_jobs s") (blast intro: work_step.Exit work_step.Drain)+
qed (use live in simp_all)

lemma producer_moves:
  assumes "load_reach q s" and "\<not> ld_closed s"
  shows "\<exists>s'. work_step q False s s'"
proof (cases "rn_NumOrders q < ld_next s")
  case True
  with assms show ?thesis by (blast intro: work_step.Close)
next
  case False
  have inv: "orders_kept s" "issued_in_order q s" using load_reach_all [OF assms(1)] by auto
  have "length (ld_jobs s) \<le> length (ld_issued s)"
    using inv(1) by (metis orders_kept_def add.assoc le_add1 size_mset size_union)
  also have "length (ld_issued s) = nat (ld_next s - 1)"
    using inv(2) by (metis issued_in_order_def length_map length_upto add_diff_cancel_right' diff_add_cancel)
  finally have "length (ld_jobs s) \<le> nat (ld_next s - 1)" .
  moreover have "1 \<le> ld_next s" using inv(2) by (simp add: issued_in_order_def)
  ultimately have "int (length (ld_jobs s)) < rn_NumOrders q" using False by linarith
  with False some_inputs(1) show ?thesis using work_step.Enqueue [of s q some_draws] by auto
qed

section \<open>Properties\<close>

lemma none_in_hand: "list_all (\<lambda>b. b = Exited) bs \<Longrightarrow> (\<Sum>b\<leftarrow>bs. bot_order b) = {#}"
  by (induction bs) auto

lemma orders_taken:
  assumes "load_reach q s" and "run_ok q" and "finished s"
  shows "image_mset or_ID (mset (ld_handled s @ ld_drained s)) = mset (map ord_id [1..rn_NumOrders q]) \<and>
    (\<not> is_ws q \<longrightarrow> ld_drained s = [])"
proof -
  note inv = load_reach_all [OF assms(1)]
  have "0 < length (ld_bots s)" using inv assms(2) by (auto simp: exits_ok_def run_ok_def)
  with assms(3) have "Exited \<in> set (ld_bots s)" unfolding finished_def list_all_iff by (metis length_pos_if_in_set nth_mem)
  then have e: "ld_jobs s = []" "rn_NumOrders q < ld_next s" using inv by (auto simp: exits_ok_def)
  have none: "in_hand s = {#}"
    using assms(3) unfolding in_hand_def finished_def by (rule none_in_hand)
  have "ld_next s = rn_NumOrders q + 1" using e inv assms(2) by (auto simp: issued_in_order_def run_ok_def)
  then have "map or_ID (ld_issued s) = map ord_id [1..rn_NumOrders q]" using inv by (simp add: issued_in_order_def)
  then have "image_mset or_ID (mset (ld_issued s)) = mset (map ord_id [1..rn_NumOrders q])" by (metis mset_map)
  moreover have "mset (ld_issued s) = mset (ld_handled s @ ld_drained s)"
    using inv e none by (simp add: orders_kept_def)
  ultimately show ?thesis using inv by (auto simp: exits_ok_def)
qed

text \<open>
  C2 (safety). When the workers of an accepted run have all returned, every generated order
  \<open>ORD-1\<close> to \<open>ORD-n\<close> was taken exactly once, by a worker that handled it or, for
  websocket bots only, by one that had no connection and threw it away.
\<close>

theorem every_order_once:
  assumes "load_reach q s" and "run_ok q" and "finished s"
  shows "image_mset or_ID (mset (ld_handled s @ ld_drained s)) = mset (map ord_id [1..rn_NumOrders q]) \<and>
    (\<not> is_ws q \<longrightarrow> ld_drained s = [])"
  using assms by (rule orders_taken)

text \<open>
  C19 (bounds). The token bucket enforces the rate: at any time the orders handled or being
  sent are at most the ticks of the ticker so far, and at most \<open>TPS\<close> tokens are ever saved up.
\<close>

theorem rate_limited:
  assumes "load_reach q s" and "run_ok q"
  shows "length (ld_handled s) + length (filter (\<lambda>b. bot_sending b = 1) (ld_bots s)) \<le> ld_ticks s \<and>
    int (ld_tokens s) \<le> rn_TPS q"
proof -
  have "(\<Sum>b\<leftarrow>bs. bot_sending b) = length (filter (\<lambda>b. bot_sending b = 1) bs)" for bs
  proof (induction bs)
    case (Cons b bs)
    then show ?case by (cases b) simp_all
  qed simp
  then show ?thesis
    using load_reach_all [OF assms(1)] assms(2) by (auto simp: paced_def run_ok_def)
qed

text \<open>
  The producer is done and every worker has returned or waits for the contestant in \<open>ReadMessage\<close>.
\<close>

definition blocked :: "load \<Rightarrow> bool" where
  "blocked s \<longleftrightarrow> ld_closed s \<and> list_all (\<lambda>b. case b of Exited \<Rightarrow> True | Awaiting r \<Rightarrow> True | _ \<Rightarrow> False) (ld_bots s)"

lemma blocked_iff:
  "blocked s \<longleftrightarrow> ld_closed s \<and> (\<forall>i<length (ld_bots s). ld_bots s ! i = Exited \<or> (\<exists>r. ld_bots s ! i = Awaiting r))"
proof -
  have "(case b of Exited \<Rightarrow> True | Awaiting r \<Rightarrow> True | _ \<Rightarrow> False) \<longleftrightarrow> b = Exited \<or> (\<exists>r. b = Awaiting r)" for b
    by (cases b) auto
  then show ?thesis by (simp add: blocked_def list_all_length)
qed

lemma blocked_stuck:
  assumes "load_reach q s" and "blocked s"
  shows "\<not> work_step q False s s'"
proof
  have late: "rn_NumOrders q < ld_next s"
    using load_reach_all [OF assms(1)] assms(2) by (auto simp: exits_ok_def blocked_def)
  have bots: "ld_bots s ! i = Exited \<or> (\<exists>r. ld_bots s ! i = Awaiting r)" if "i < length (ld_bots s)" for i
    using assms(2) that by (simp add: blocked_iff)
  assume "work_step q False s s'"
  then show False
    by (rule work_stepE) (use late bots assms(2) in \<open>fastforce simp: blocked_def\<close>)+
qed

lemma unblocked_moves:
  assumes "load_reach q s" and "run_ok q" and "\<not> blocked s"
  shows "(\<exists>s'. work_step q False s s') \<or> (\<exists>s'. work_step q False (tick q s) s')"
proof (cases "ld_closed s")
  case True
  with assms(3) obtain i where "i < length (ld_bots s)" "ld_bots s ! i \<noteq> Exited" "\<And>r. ld_bots s ! i \<noteq> Awaiting r"
    by (auto simp: blocked_iff)
  moreover have "0 < ld_tokens (tick q s)" using assms(2) by (simp add: tick_def run_ok_def)
  ultimately have "\<exists>s'. work_step q False (tick q s) s'" using True by (intro bot_moves) (auto simp: tick_def)
  then show ?thesis by blast
qed (use producer_moves [OF assms(1)] in blast)

lemma blocked_finished:
  assumes "load_reach q s" and "\<not> is_ws q" and "blocked s"
  shows "finished s"
proof -
  have "\<forall>r. Awaiting r \<notin> set (ld_bots s)"
    using load_reach_all [OF assms(1)] assms(2) by (auto simp: exits_ok_def)
  with assms(3) show ?thesis
    unfolding blocked_iff finished_def list_all_length by (metis nth_mem)
qed


text \<open>
  C13 (refinement). Every message a run leaves in the topic has the run's id as its key and is
  the encoding of a well-formed event of this run and submission, so the telemetry service
  decodes each of them.
\<close>

theorem topic_decodes:
  assumes "load_reach q s" and "(k, v) \<in> set (ld_log s)"
  shows "k = rn_RunID q \<and> (\<exists>ev. event_ok ev \<and> decode_event v = Some (clean_event ev) \<and>
    ev_RunID ev = rn_RunID q \<and> ev_SubmissionID ev = rn_SubmissionID q)"
proof -
  have "fleet_message q (k, v)"
    using load_reach_all [OF assms(1)] assms(2) by (auto simp: log_ok_def list_all_iff)
  then show ?thesis unfolding fleet_message_def by (metis decode_encode_event prod.inject)
qed

text \<open>
  C34 (error). A websocket run whose bots handled nothing, because none could connect, returns no
  error although it published no event at all: the orders were drained without a trace.
\<close>

theorem silent_drain:
  assumes "load_reach q s" and "run_ok q" and "finished s" and "ld_handled s = []"
  shows "load_result s = None \<and> ld_log s = [] \<and> int (length (ld_drained s)) = rn_NumOrders q"
proof -
  note inv = load_reach_all [OF assms(1)]
  have "size (image_mset or_ID (mset (ld_handled s @ ld_drained s))) = size (mset (map ord_id [1..rn_NumOrders q]))"
    using orders_taken [OF assms(1-3)] by simp
  then show ?thesis
    using inv assms(2,4) by (auto simp: paced_def exits_ok_def load_result_def run_ok_def)
qed

section \<open>Two runs\<close>

text \<open>One bot, one order: over HTTP up to the published event, and a websocket bot without a connection.\<close>

definition small_run :: "string \<Rightarrow> run_request" where
  "small_run protocol = \<lparr>rn_RunID = ''S-42'', rn_Endpoint = ''h:1'', rn_SubmissionID = ''S'',
     rn_NumBots = 1, rn_NumOrders = 1, rn_TPS = 500, rn_Protocol = protocol\<rparr>"

lemma small_run_ok [simp]: "run_ok (small_run p)" "is_ws (small_run ''websocket'')" "\<not> is_ws (small_run [])"
  by (simp_all add: run_ok_def small_run_def maxNumBots_def maxNumOrders_def maxTPS_def is_ws_def)

definition the_order :: order where
  "the_order = generateOrder some_draws 1"

definition bot_state :: "bot \<Rightarrow> load" where
  "bot_state b = \<lparr>ld_next = 2, ld_jobs = [], ld_closed = False, ld_tokens = 0, ld_bots = [b],
     ld_log = [], ld_failures = 0, ld_ticks = 0, ld_issued = [the_order], ld_handled = [], ld_drained = []\<rparr>"

lemma reach_taken: "load_reach (small_run []) (bot_state (Waiting the_order))"
proof -
  have "load_reach (small_run []) ((load_start (small_run []))\<lparr>ld_jobs := [the_order], ld_next := 2, ld_issued := [the_order]\<rparr>)"
    using load_reach.work [OF load_reach.start work_step.Enqueue [of _ "small_run []" some_draws]]
    by (simp add: load_start_def the_order_def) (simp add: small_run_def)
  from load_reach.work [OF this work_step.TakeJob [of 0 _ the_order "[]"]] show ?thesis
    by (simp add: load_start_def bot_state_def set_bot_def is_ws_def) (simp add: small_run_def)
qed

definition one_copy :: write_outcome where
  "one_copy = \<lparr>wo_copies = 1, wo_nil = True\<rparr>"

definition the_event :: order_event where
  "the_event = make_event ''S-42'' ''S'' the_order some_exchange 0 False []"

definition published_state :: load where
  "published_state = (bot_state Idle)\<lparr>ld_ticks := 1, ld_log := [(''S-42'', encode_event the_event)],
     ld_handled := [the_order]\<rparr>"

lemma reach_published: "load_reach (small_run []) published_state"
proof -
  have "load_reach (small_run []) ((bot_state (Waiting the_order))\<lparr>ld_tokens := 1, ld_ticks := 1\<rparr>)"
    using load_reach.tick [OF reach_taken] by (simp add: tick_def bot_state_def small_run_def)
  from load_reach.work [OF this work_step.TakeToken [of 0 _ the_order]]
  have r: "load_reach (small_run []) ((bot_state (Sending the_order))\<lparr>ld_ticks := 1\<rparr>)"
    by (simp add: bot_state_def set_bot_def)
  have w: "work_order ''S-42'' ''S'' the_order some_exchange (\<lambda>_. one_copy) = ([(''S-42'', encode_event the_event)], False)"
    by (simp add: work_order_def worker_event_def some_exchange_def publish_event_def publish_cases the_event_def one_copy_def)
      (simp add: make_event_def)
  have "work_step (small_run []) False ((bot_state (Sending the_order))\<lparr>ld_ticks := 1\<rparr>)
      (handled 0 the_order (work_order ''S-42'' ''S'' the_order some_exchange (\<lambda>_. one_copy))
        ((bot_state (Sending the_order))\<lparr>ld_ticks := 1\<rparr>))"
    using work_step.Handle [of 0 "(bot_state (Sending the_order))\<lparr>ld_ticks := 1\<rparr>" the_order "small_run []"
        some_exchange "\<lambda>_. one_copy"]
    by (simp add: bot_state_def) (simp add: small_run_def)
  from load_reach.work [OF r this] show ?thesis
    by (simp add: w handled_def set_bot_def published_state_def bot_state_def)
qed

definition drained_state :: load where
  "drained_state = (bot_state Exited)\<lparr>ld_closed := True, ld_drained := [the_order]\<rparr>"

lemma reach_drained: "load_reach (small_run ''websocket'') drained_state"
proof -
  let ?q = "small_run ''websocket''"
  have start: "load_start ?q = (load_start (small_run []))\<lparr>ld_bots := [Dialing]\<rparr>"
    by (simp add: load_start_def is_ws_def small_run_def)
  then have "0 < length (ld_bots (load_start ?q))" "ld_bots (load_start ?q) ! 0 = Dialing" by simp_all
  from load_reach.work [OF load_reach.start work_step.DialFailed [OF this]]
  have "load_reach ?q (set_bot 0 Draining (load_start ?q))" .
  from load_reach.work [OF this work_step.Enqueue [of _ ?q some_draws]]
  have "load_reach ?q ((bot_state Draining)\<lparr>ld_jobs := [the_order]\<rparr>)"
    unfolding start by (simp add: load_start_def bot_state_def set_bot_def the_order_def) (simp add: small_run_def)
  from load_reach.work [OF this work_step.Drain [of 0 _ the_order "[]"]]
  have "load_reach ?q ((bot_state Draining)\<lparr>ld_drained := [the_order]\<rparr>)" by (simp add: bot_state_def)
  from load_reach.work [OF this work_step.Close]
  have "load_reach ?q ((bot_state Draining)\<lparr>ld_drained := [the_order], ld_closed := True\<rparr>)"
    by (simp add: bot_state_def) (simp add: small_run_def)
  from load_reach.work [OF this work_step.Exit [of 0]] show ?thesis
    by (simp add: bot_state_def set_bot_def drained_state_def)
qed

theorem every_order_once_witness:
  "image_mset or_ID (mset (ld_handled drained_state @ ld_drained drained_state))
     = mset (map ord_id [1..rn_NumOrders (small_run ''websocket'')])"
  by (rule conjunct1, rule every_order_once [OF reach_drained])
    (simp_all add: finished_def drained_state_def bot_state_def)

theorem rate_limited_witness:
  "length (ld_handled published_state) + length (filter (\<lambda>b. bot_sending b = 1) (ld_bots published_state)) \<le> 1"
  using rate_limited [OF reach_published] by (simp add: published_state_def)

text \<open>A websocket bot whose contestant never answers.\<close>

definition silent_state :: load where
  "silent_state = (bot_state (Awaiting the_order))\<lparr>ld_ticks := 1, ld_closed := True\<rparr>"

lemma reach_silent: "load_reach (small_run ''websocket'') silent_state"
proof -
  let ?q = "small_run ''websocket''"
  have start: "load_start ?q = (load_start (small_run []))\<lparr>ld_bots := [Dialing]\<rparr>"
    by (simp add: load_start_def is_ws_def small_run_def)
  then have "0 < length (ld_bots (load_start ?q))" "ld_bots (load_start ?q) ! 0 = Dialing" by simp_all
  from load_reach.work [OF load_reach.start work_step.Dialed [OF this]]
  have "load_reach ?q (set_bot 0 Idle (load_start ?q))" .
  from load_reach.work [OF this work_step.Enqueue [of _ ?q some_draws]]
  have "load_reach ?q ((bot_state Idle)\<lparr>ld_jobs := [the_order]\<rparr>)"
    unfolding start by (simp add: load_start_def bot_state_def set_bot_def the_order_def) (simp add: small_run_def)
  from load_reach.work [OF this work_step.TakeJob [of 0 _ the_order "[]"]]
  have "load_reach ?q (bot_state (Waiting the_order))" by (simp add: bot_state_def set_bot_def)
  from load_reach.tick [OF this]
  have "load_reach ?q ((bot_state (Waiting the_order))\<lparr>ld_tokens := 1, ld_ticks := 1\<rparr>)"
    by (simp add: tick_def bot_state_def small_run_def)
  from load_reach.work [OF this work_step.TakeToken [of 0 _ the_order]]
  have "load_reach ?q ((bot_state (Sending the_order))\<lparr>ld_ticks := 1\<rparr>)" by (simp add: bot_state_def set_bot_def)
  from load_reach.work [OF this work_step.WsWritten [of 0 _ the_order]]
  have "load_reach ?q ((bot_state (Awaiting the_order))\<lparr>ld_ticks := 1\<rparr>)" by (simp add: bot_state_def set_bot_def)
  from load_reach.work [OF this work_step.Close] show ?thesis
    by (simp add: bot_state_def silent_state_def) (simp add: small_run_def)
qed


theorem topic_decodes_witness:
  "\<exists>ev. event_ok ev \<and> decode_event (encode_event the_event) = Some (clean_event ev)"
  using topic_decodes [OF reach_published, of "''S-42''" "encode_event the_event"]
  by (auto simp: published_state_def)

theorem silent_drain_witness: "load_result drained_state = None \<and> ld_log drained_state = []"
  using silent_drain [OF reach_drained] by (simp add: finished_def drained_state_def bot_state_def)

end
