(* ===== verification/SandboxPort.thy ===== *)
theory SandboxPort
  imports Prelude
begin

text \<open>
  \<open>getDeterministicPort\<close>, the CPU pinning by port and \<open>validIDPattern\<close> of \<open>cmd/sandbox\<close>
  (\<open>grpc.go\<close>, \<open>docker.go\<close>): the FNV-1a hash over 32-bit words and the range of the ports.
\<close>

unbundle bit_operations_syntax

section \<open>The port of a submission\<close>

definition fnv32a_step :: "32 word \<Rightarrow> char \<Rightarrow> 32 word" where
  "fnv32a_step h c = (h XOR of_nat (of_char c)) * 16777619"

text \<open>\<open>fnv.New32a\<close>, \<open>Write\<close>, \<open>Sum32\<close>.\<close>

definition fnv32a :: "string \<Rightarrow> 32 word" where
  "fnv32a s = foldl fnv32a_step 2166136261 s"

definition getDeterministicPort :: "string \<Rightarrow> int" where
  "getDeterministicPort submissionID = uint (30000 + fnv32a submissionID mod 10000 :: 32 word)"

text \<open>The CPU a container is pinned to; \<open>runtime.NumCPU\<close> is at least 1.\<close>

definition cpu_core :: "int \<Rightarrow> int \<Rightarrow> string" where
  "cpu_core numCPUs hostPort = itoa (hostPort mod numCPUs)"

section \<open>The identifiers the gRPC endpoint accepts\<close>

definition id_char :: "char \<Rightarrow> bool" where
  "id_char c \<longleftrightarrow> (let n = (of_char c :: nat) in
     97 \<le> n \<and> n \<le> 122 \<or> 65 \<le> n \<and> n \<le> 90 \<or> 48 \<le> n \<and> n \<le> 57 \<or> c = CHR ''_'' \<or> c = CHR ''-'')"

definition validIDPattern :: "string \<Rightarrow> bool" where
  "validIDPattern s \<longleftrightarrow> s \<noteq> [] \<and> list_all id_char s"

section \<open>Properties\<close>

lemma getDeterministicPort_alt: "getDeterministicPort s = 30000 + uint (fnv32a s) mod 10000"
proof -
  have m: "uint (fnv32a s mod 10000) = uint (fnv32a s) mod 10000" by (simp add: uint_mod)
  have "0 \<le> uint (fnv32a s) mod 10000" "uint (fnv32a s) mod 10000 < 10000" by simp_all
  moreover have "(40000 :: int) < 2 ^ 32" by simp
  ultimately have below: "0 \<le> 30000 + uint (fnv32a s) mod 10000" "30000 + uint (fnv32a s) mod 10000 < 2 ^ 32" by linarith+
  have "(30000 + uint (fnv32a s) mod 10000) mod 2 ^ 32 = 30000 + uint (fnv32a s) mod 10000"
    by (intro mod_pos_pos_trivial) (use below in \<open>simp_all add: add_nonneg_nonneg\<close>)
  then show ?thesis by (simp add: getDeterministicPort_def uint_word_ariths m)
qed

text \<open>
  C38 (bounds). The port of a submission is between 30000 and 39999 for every identifier, the sum
  in \<open>uint32\<close> does not wrap, and the CPU it is pinned to exists.
\<close>

theorem port_range:
  "30000 \<le> getDeterministicPort s \<and> getDeterministicPort s < 40000 \<and>
   getDeterministicPort s = 30000 + uint (fnv32a s) mod 10000 \<and>
   (\<exists>k. cpu_core (int (Suc n)) (getDeterministicPort s) = itoa k \<and> 0 \<le> k \<and> k \<le> int n)"
proof -
  have "0 \<le> getDeterministicPort s mod int (Suc n)" "getDeterministicPort s mod int (Suc n) < int (Suc n)"
    by (rule pos_mod_sign pos_mod_bound; simp)+
  then have "0 \<le> getDeterministicPort s mod int (Suc n)" "getDeterministicPort s mod int (Suc n) \<le> int n"
    by linarith+
  then have "\<exists>k. cpu_core (int (Suc n)) (getDeterministicPort s) = itoa k \<and> 0 \<le> k \<and> k \<le> int n"
    unfolding cpu_core_def by auto
  then show ?thesis
    using pos_mod_bound [of 10000 "uint (fnv32a s)"] pos_mod_sign [of 10000 "uint (fnv32a s)"]
    by (simp add: getDeterministicPort_alt)
qed

lemma fnv_samples: "fnv32a ''a8'' = 321170044" "fnv32a ''t7'' = 172290044"
  by (simp_all add: fnv32a_def fnv32a_step_def)

text \<open>Two identifiers that the gRPC endpoint accepts share port 30044.\<close>

lemma port_collision:
  "validIDPattern ''a8'' \<and> validIDPattern ''t7'' \<and>
   getDeterministicPort ''a8'' = 30044 \<and> getDeterministicPort ''t7'' = 30044"
  by (simp add: getDeterministicPort_alt fnv_samples validIDPattern_def id_char_def)

end
