(* ===== verification/SandboxBuild.thy ===== *)
theory SandboxBuild
  imports JsonStruct
begin

text \<open>
  The build answer of \<open>buildSubmissionImage\<close> (\<open>cmd/sandbox/docker.go\<close>): the loop that decodes the stream
  of messages, the messages that Docker documents for a build, and that the loop finds their verdict.
\<close>

section \<open>The build stream\<close>

record build_message =
  bm_Stream :: string
  bm_Error :: string
  bm_Detail :: string

definition zero_message :: build_message where
  "zero_message = \<lparr>bm_Stream = [], bm_Error = [], bm_Detail = []\<rparr>"

definition build_fields :: "build_message field list" where
  "build_fields =
     [(''stream'', set_string (\<lambda>s. bm_Stream_update (\<lambda>_. s))),
      (''error'', set_string (\<lambda>s. bm_Error_update (\<lambda>_. s))),
      (''errorDetail'', decode_struct [(''message'', set_string (\<lambda>s. bm_Detail_update (\<lambda>_. s)))])]"

datatype build_error =
    ReadSource
  | BuildCall
  | BuildStream
  | BuildFailed string

text \<open>
  The loop over \<open>decoder.Decode\<close>: the error it returns, or \<open>None\<close> at the end of the stream, when the
  read of the body ended with \<open>io.EOF\<close>.
\<close>

function read_build :: "string \<Rightarrow> bool \<Rightarrow> build_error option" where
  "read_build s eof =
     (if skip_ws s = [] then (if eof then None else Some BuildStream)
      else case pval (json_fuel s) maxNestingDepth s of
             None \<Rightarrow> Some BuildStream
           | Some (j, rest) \<Rightarrow>
               (case decode_struct build_fields j zero_message of
                  None \<Rightarrow> Some BuildStream
                | Some msg \<Rightarrow>
                    if bm_Error msg \<noteq> [] then Some (BuildFailed (bm_Error msg))
                    else if bm_Detail msg \<noteq> [] then Some (BuildFailed (bm_Detail msg))
                    else read_build rest eof))"
  by pat_completeness auto
termination
  by (relation "measure (\<lambda>(s, eof). length s)") (auto dest: reader_length(1))

declare read_build.simps [simp del]

section \<open>What the daemon sends\<close>

text \<open>
  The messages that Docker documents for a build: output of a step, the progress of a layer, an
  auxiliary message with the id of the image, and the error that ends a failed build.
\<close>

datatype daemon_message =
    StreamMsg string
  | StatusMsg string string
  | AuxMsg string
  | FailureMsg string

fun daemon_json :: "daemon_message \<Rightarrow> json" where
  "daemon_json (StreamMsg s) = JObj [(''stream'', JStr s)]"
| "daemon_json (StatusMsg s i) = JObj [(''status'', JStr s), (''id'', JStr i)]"
| "daemon_json (AuxMsg i) = JObj [(''aux'', JObj [(''ID'', JStr i)])]"
| "daemon_json (FailureMsg m) = JObj [(''errorDetail'', JObj [(''message'', JStr m)]), (''error'', JStr m)]"

definition daemon_line :: "daemon_message \<Rightarrow> string" where
  "daemon_line m = json_print (daemon_json m) @ [CHR 13, CHR 10]"

definition build_stream :: "daemon_message list \<Rightarrow> string" where
  "build_stream msgs = concat (map daemon_line msgs)"

fun first_failure :: "daemon_message list \<Rightarrow> string option" where
  "first_failure [] = None"
| "first_failure (FailureMsg m # msgs) = Some m"
| "first_failure (_ # msgs) = first_failure msgs"

lemma pval_space: "is_space c \<Longrightarrow> pval f d (c # s) = pval f d s"
  by (cases f) (simp_all add: value_step_def skip_ws_def)

lemma daemon_json_ok: "json_ok maxNestingDepth (daemon_json m)"
  by (cases m) (simp_all add: maxNestingDepth_def)

lemma fold_build_names [simp]:
  "fold_name ''stream'' = ''STREAM''" "fold_name ''error'' = ''ERROR''" "fold_name ''errorDetail'' = ''ERRORDETAIL''"
  "fold_name ''message'' = ''MESSAGE''" "fold_name ''status'' = ''STATUS''" "fold_name ''id'' = ''ID''"
  "fold_name ''aux'' = ''AUX''"
  by (simp_all add: fold_name_map ascii_def upper_char_def char_of_eq_iff take_bit_eq_mod)

lemma ascii_build_names: "s \<in> {''stream'', ''error'', ''errorDetail'', ''message'', ''status'', ''id'', ''aux'', ''ID''} \<Longrightarrow> to_valid_utf8 s = s"
  by (auto simp: to_valid_utf8_id ascii_valid ascii_def)

lemma to_valid_utf8_nonempty: "to_valid_utf8 s = [] \<longleftrightarrow> s = []"
  by (cases s) (auto simp: to_valid_utf8.simps runeError_def)

lemma decode_daemon:
  "decode_struct build_fields (json_clean (daemon_json m)) zero_message = Some
     (case m of StreamMsg s \<Rightarrow> zero_message\<lparr>bm_Stream := to_valid_utf8 s\<rparr>
      | FailureMsg e \<Rightarrow> zero_message\<lparr>bm_Error := to_valid_utf8 e, bm_Detail := to_valid_utf8 e\<rparr>
      | _ \<Rightarrow> zero_message)"
  by (cases m) (simp_all add: ascii_build_names build_fields_def zero_message_def)

definition crlf :: string where "crlf = [CHR 13, CHR 10]"

lemma crlf_space: "is_space (CHR 13)" "is_space (CHR 10)"
  by (simp_all add: is_space_def)

declare daemon_json.simps [simp del]

lemma zero_message_fields [simp]: "bm_Error zero_message = []" "bm_Detail zero_message = []"
  by (simp_all add: zero_message_def)

lemma read_one:
  assumes "ws = [] \<or> ws = crlf"
  shows "skip_ws (ws @ daemon_line m @ t) \<noteq> [] \<and>
    pval (json_fuel (ws @ daemon_line m @ t)) maxNestingDepth (ws @ daemon_line m @ t) =
      Some (json_clean (daemon_json m), crlf @ t)"
proof -
  have space: "pval f d (ws @ u) = pval f d u" for f d u
    using assms by (auto simp: crlf_def pval_space crlf_space)
  have "2 * length (json_print (daemon_json m) @ crlf @ t) + 1 \<le> json_fuel (ws @ daemon_line m @ t)"
    by (simp add: json_fuel_def daemon_line_def crlf_def)
  then have "pval (json_fuel (ws @ daemon_line m @ t)) maxNestingDepth (json_print (daemon_json m) @ crlf @ t) =
      Some (json_clean (daemon_json m), crlf @ t)"
    by (intro prints_backD [OF prints_back_all [OF daemon_json_ok]]) (simp_all add: num_stop_def crlf_def)
  moreover have "daemon_line m @ t = json_print (daemon_json m) @ crlf @ t" by (simp add: daemon_line_def crlf_def)
  moreover obtain c cs where c: "json_print (daemon_json m) = c # cs" "\<not> is_space c"
    using daemon_json_ok [of m] by (rule json_print_head)
  ultimately show ?thesis
    using assms by (auto simp: space) (auto simp: crlf_def skip_ws_def crlf_space)
qed

lemma read_stream:
  "FailureMsg [] \<notin> set msgs \<Longrightarrow> ws = [] \<or> ws = crlf \<Longrightarrow>
   read_build (ws @ build_stream msgs) eof =
     (case first_failure msgs of
        Some m \<Rightarrow> Some (BuildFailed (to_valid_utf8 m))
      | None \<Rightarrow> if eof then None else Some BuildStream)"
proof (induction msgs arbitrary: ws)
  case Nil
  then show ?case
    by (subst read_build.simps) (auto simp: build_stream_def skip_ws_def crlf_def crlf_space)
next
  case (Cons m msgs)
  note one = read_one [OF Cons.prems(2), of m "build_stream msgs"]
  have rest: "read_build (crlf @ build_stream msgs) eof =
      (case first_failure msgs of Some m \<Rightarrow> Some (BuildFailed (to_valid_utf8 m))
       | None \<Rightarrow> if eof then None else Some BuildStream)"
    using Cons by simp
  have "build_stream (m # msgs) = daemon_line m @ build_stream msgs" by (simp add: build_stream_def)
  with one rest Cons.prems(1) show ?case
    by (subst read_build.simps)
      (cases m; auto simp: decode_daemon to_valid_utf8_nonempty)
qed



end
