(* ===== verification/SandboxDocker.thy ===== *)
theory SandboxDocker
  imports SandboxPort SandboxBuild
begin

text \<open>
  \<open>cmd/sandbox/docker.go\<close>: building the image of a submission, running its container, sweeping
  old images, and \<open>ensureSandboxNetwork\<close> of \<open>main.go\<close>. The Docker engine is outside the
  repository: the record \<open>docker_api\<close> holds the client calls the code makes, the locale
  \<open>docker_engine\<close> what Docker documents of them. Other requests and containers that stop by
  themselves do not act between the calls of one function.
\<close>

section \<open>The client\<close>

record container =
  ct_name :: string
  ct_image :: string
  ct_host_port :: int
  ct_host_ip :: string
  ct_memory :: int
  ct_cpuset :: string
  ct_autoremove :: bool
  ct_running :: bool
  ct_networks :: "string list"

text \<open>A build context is the list of entries of the tar archive; an image is what it was built from.\<close>

type_synonym build_context = "(string \<times> string) list"

text \<open>
  The context of a call: \<open>context.Background()\<close>, or that of the HTTP or gRPC request, which is
  cancelled when the client goes away. Each call takes the state of the engine, with everything
  around it, and gives it back, with whether it succeeded, the id of the new container, or the answer
  of a build: its text and whether reading it ended with \<open>io.EOF\<close> and not with another error.
\<close>

datatype call_context = Background | Request

record 'd docker_api =
  ImageRemove :: "call_context \<Rightarrow> string \<Rightarrow> 'd \<Rightarrow> 'd \<times> bool"
  ImageBuild :: "call_context \<Rightarrow> string \<Rightarrow> build_context \<Rightarrow> 'd \<Rightarrow> 'd \<times> (string \<times> bool) option"
  ImageList :: "call_context \<Rightarrow> 'd \<Rightarrow> (string list \<times> int) list option"
  ContainerRemove :: "call_context \<Rightarrow> string \<Rightarrow> 'd \<Rightarrow> 'd \<times> bool"
  ContainerCreate :: "call_context \<Rightarrow> container \<Rightarrow> 'd \<Rightarrow> 'd \<times> string option"
  ContainerStart :: "call_context \<Rightarrow> string \<Rightarrow> 'd \<Rightarrow> 'd \<times> bool"
  ContainerStop :: "call_context \<Rightarrow> string \<Rightarrow> 'd \<Rightarrow> 'd \<times> bool"
  NetworkConnect :: "call_context \<Rightarrow> string \<Rightarrow> string \<Rightarrow> 'd \<Rightarrow> 'd \<times> bool"
  NetworkList :: "call_context \<Rightarrow> 'd \<Rightarrow> string list option"
  NetworkCreate :: "call_context \<Rightarrow> string \<Rightarrow> bool \<Rightarrow> 'd \<Rightarrow> 'd \<times> bool"

section \<open>buildSubmissionImage\<close>

definition lower_char :: "char \<Rightarrow> char" where
  "lower_char c = (if 65 \<le> byte c \<and> byte c \<le> 90 then char_of (byte c + 32) else c)"

text \<open>\<open>strings.ToLower\<close> as far as the comparison with ASCII names goes.\<close>

definition lower :: "string \<Rightarrow> string" where
  "lower s = map lower_char s"

definition nl :: string where "nl = [CHR 10]"

definition dockerfile_lines :: "string list \<Rightarrow> string" where
  "dockerfile_lines ls = nl @ concat (map (\<lambda>l. l @ nl) ls)"

text \<open>The Dockerfile and the name under which the source goes into the build context.\<close>

definition build_recipe :: "string \<Rightarrow> string \<Rightarrow> string \<times> string" where
  "build_recipe language artifactType =
     (if artifactType = ''binary''
      then (dockerfile_lines [''FROM alpine:3.19'', ''WORKDIR /app'', ''COPY bot .'',
              ''RUN chmod +x ./bot'', ''CMD [\"./bot\"]''], ''bot'')
      else if lower language = ''cpp''
      then (dockerfile_lines [''FROM gcc:13'', ''WORKDIR /app'', ''COPY main.cpp .'',
              ''RUN g++ -O3 -o bot main.cpp'', ''CMD [\"./bot\"]''], ''main.cpp'')
      else if lower language = ''rust''
      then (dockerfile_lines [''FROM rust:1.77-alpine'', ''WORKDIR /app'', ''COPY main.rs .'',
              ''RUN rustc -O -o bot main.rs'', ''CMD [\"./bot\"]''], ''main.rs'')
      else (dockerfile_lines [''FROM golang:1.22-alpine'', ''WORKDIR /app'', ''COPY main.go .'',
              ''RUN go build -o bot main.go'', ''CMD [\"./bot\"]''], ''main.go''))"

text \<open>The entries of the tar archive.\<close>

definition build_entries :: "string \<Rightarrow> string \<Rightarrow> string \<Rightarrow> build_context" where
  "build_entries language artifactType code =
     (let (dockerfile, sourceFilename) = build_recipe language artifactType
      in [(''Dockerfile'', dockerfile), (sourceFilename, code)])"

text \<open>\<open>source\<close> is what \<open>os.ReadFile\<close> gives; the error of \<open>ImageRemove\<close> is discarded.\<close>

definition buildSubmissionImage ::
    "'d docker_api \<Rightarrow> call_context \<Rightarrow> string option \<Rightarrow> string \<Rightarrow> string \<Rightarrow> string \<Rightarrow> 'd \<Rightarrow> 'd \<times> build_error option" where
  "buildSubmissionImage api c source imageName language artifactType d =
     (case source of
        None \<Rightarrow> (d, Some ReadSource)
      | Some code \<Rightarrow>
          (let entries = build_entries language artifactType code;
               (d1, removed) = ImageRemove api c imageName d;
               (d2, ans) = ImageBuild api c imageName entries d1
           in case ans of
                None \<Rightarrow> (d2, Some BuildCall)
              | Some (body, eof) \<Rightarrow> (d2, read_build body eof)))"

section \<open>runSubmissionContainer\<close>

datatype run_error = CreateFailed | StartFailed | ConnectFailed

definition sandbox_net :: string where "sandbox_net = ''iicpc-sandbox-net''"

definition submission_name :: "string \<Rightarrow> string" where
  "submission_name submissionID = ''submission-'' @ submissionID"

text \<open>The arguments of \<open>ContainerCreate\<close>.\<close>

definition container_config :: "int \<Rightarrow> string \<Rightarrow> string \<Rightarrow> int \<Rightarrow> container" where
  "container_config numCPUs submissionID imageName hostPort =
     \<lparr>ct_name = submission_name submissionID, ct_image = imageName, ct_host_port = hostPort,
      ct_host_ip = ''0.0.0.0'', ct_memory = 128 * 2 ^ 20, ct_cpuset = cpu_core numCPUs hostPort,
      ct_autoremove = True, ct_running = False, ct_networks = []\<rparr>"

text \<open>The errors of both calls are discarded, and they run under the context of the request.\<close>

definition cleanup :: "'d docker_api \<Rightarrow> call_context \<Rightarrow> string \<Rightarrow> 'd \<Rightarrow> 'd" where
  "cleanup api c i d =
     (let (d1, stopped) = ContainerStop api c i d; (d2, removed) = ContainerRemove api c i d1 in d2)"

definition runSubmissionContainer ::
    "'d docker_api \<Rightarrow> call_context \<Rightarrow> int \<Rightarrow> string \<Rightarrow> string \<Rightarrow> int \<Rightarrow> 'd \<Rightarrow> 'd \<times> (run_error + string)" where
  "runSubmissionContainer api c numCPUs submissionID imageName hostPort d =
     (let (d1, removed) = ContainerRemove api c (submission_name submissionID) d;
          (d2, created) = ContainerCreate api c (container_config numCPUs submissionID imageName hostPort) d1
      in case created of
           None \<Rightarrow> (d2, Inl CreateFailed)
         | Some i \<Rightarrow>
             (let (d3, started) = ContainerStart api c i d2
              in if \<not> started then (cleanup api c i d3, Inl StartFailed)
                 else let (d4, connected) = NetworkConnect api c sandbox_net i d3
                      in if \<not> connected then (cleanup api c i d4, Inl ConnectFailed)
                         else (d4, Inr i)))"

section \<open>Housekeeping\<close>

text \<open>\<open>strings.HasPrefix\<close>; the time since \<open>time.Unix(img.Created, 0)\<close>, in nanoseconds.\<close>

definition has_prefix :: "string \<Rightarrow> string \<Rightarrow> bool" where
  "has_prefix s p \<longleftrightarrow> take (length p) s = p"

definition image_old :: "int \<Rightarrow> int \<Rightarrow> bool" where
  "image_old now created \<longleftrightarrow> now - created * 10 ^ 9 > 3600 * 10 ^ 9"

text \<open>The state after, and the tags whose removal failed, which the log names.\<close>

fun sweep_tags :: "'d docker_api \<Rightarrow> int \<Rightarrow> int \<Rightarrow> string list \<Rightarrow> 'd \<Rightarrow> 'd \<times> string list" where
  "sweep_tags api now created [] d = (d, [])"
| "sweep_tags api now created (tag # tags) d =
     (if has_prefix tag ''submission-'' \<and> image_old now created
      then let (d1, ok) = ImageRemove api Background tag d;
               (d2, failed) = sweep_tags api now created tags d1
           in (d2, if ok then failed else tag # failed)
      else sweep_tags api now created tags d)"

fun sweep_images :: "'d docker_api \<Rightarrow> int \<Rightarrow> (string list \<times> int) list \<Rightarrow> 'd \<Rightarrow> 'd \<times> string list" where
  "sweep_images api now [] d = (d, [])"
| "sweep_images api now ((tags, created) # imgs) d =
     (let (d1, failed) = sweep_tags api now created tags d;
          (d2, failed') = sweep_images api now imgs d1
      in (d2, failed @ failed'))"

text \<open>The state after, the tags logged, and whether there was an error.\<close>

definition cleanupOldImages :: "'d docker_api \<Rightarrow> int \<Rightarrow> 'd \<Rightarrow> 'd \<times> string list \<times> bool" where
  "cleanupOldImages api now d =
     (case ImageList api Background d of
        None \<Rightarrow> (d, [], True)
      | Some imgs \<Rightarrow> (let (d1, failed) = sweep_images api now imgs d in (d1, failed, False)))"

text \<open>
  The janitor of \<open>main\<close>: at every tick, every thirty minutes, it sweeps; the error of a sweep is
  only logged, and the cancellation at shutdown ends it.
\<close>

datatype janitor_event = JanitorTick int | JanitorCancel

fun janitor :: "'d docker_api \<Rightarrow> janitor_event list \<Rightarrow> 'd \<Rightarrow> 'd" where
  "janitor api [] d = d"
| "janitor api (JanitorCancel # es) d = d"
| "janitor api (JanitorTick now # es) d = janitor api es (fst (cleanupOldImages api now d))"

definition ensureSandboxNetwork :: "'d docker_api \<Rightarrow> 'd \<Rightarrow> 'd \<times> bool" where
  "ensureSandboxNetwork api d =
     (case NetworkList api Background d of
        None \<Rightarrow> (d, True)
      | Some networks \<Rightarrow>
          if sandbox_net \<in> set networks then (d, False)
          else let (d1, ok) = NetworkCreate api Background sandbox_net True d in (d1, \<not> ok))"

section \<open>What Docker documents\<close>

text \<open>An image reference without a tag means the tag \<open>latest\<close>.\<close>

definition tag_ref :: "string \<Rightarrow> string" where
  "tag_ref t = (if CHR '':'' \<in> set (takeWhile (\<lambda>c. c \<noteq> CHR ''/'') (rev t)) then t else t @ '':latest'')"

text \<open>The containers on the same address and port that run, other than \<open>i\<close>.\<close>

definition port_taken :: "(string \<Rightarrow> container option) \<Rightarrow> string \<Rightarrow> string \<Rightarrow> bool" where
  "port_taken containers i j \<longleftrightarrow> i \<noteq> j \<and>
     (case (containers i, containers j) of
        (Some a, Some b) \<Rightarrow> ct_running b \<and> ct_host_ip a = ct_host_ip b \<and> ct_host_port a = ct_host_port b
      | _ \<Rightarrow> False)"

text \<open>
  \<open>images\<close> gives the image of a complete reference, \<open>cont\<close> the containers by id, \<open>cancelled\<close> whether the
  context of a call is cancelled. Any call may fail. A removal that fails may leave things as they are;
  a build tags the image exactly when none of its messages is a failure, and the client gets its
  messages up to where the connection broke; a call on a cancelled context is not made.
\<close>

locale docker_engine =
  fixes api :: "'d docker_api"
    and images :: "'d \<Rightarrow> string \<Rightarrow> build_context option"
    and cont :: "'d \<Rightarrow> string \<Rightarrow> container option"
    and cancelled :: "call_context \<Rightarrow> 'd \<Rightarrow> bool"
  assumes image_remove: "ImageRemove api c t d = (d', ok) \<Longrightarrow>
      cont d' = cont d \<and> images d' \<subseteq>\<^sub>m images d \<and> (\<forall>r. r \<noteq> tag_ref t \<longrightarrow> images d' r = images d r) \<and>
      (ok \<longrightarrow> images d' (tag_ref t) = None)"
    and image_build: "ImageBuild api c t entries d = (d', Some (body, eof)) \<Longrightarrow>
      cont d' = cont d \<and> (\<exists>msgs rest. FailureMsg [] \<notin> set msgs \<and> body @ rest = build_stream msgs \<and> (eof \<longrightarrow> rest = []) \<and>
        images d' = (if first_failure msgs = None then (images d)(tag_ref t \<mapsto> entries) else images d))"
    and image_build_failed: "ImageBuild api c t entries d = (d', None) \<Longrightarrow>
      cont d' = cont d \<and> (images d' = images d \<or> images d' = (images d)(tag_ref t \<mapsto> entries))"
    and container_remove: "ContainerRemove api c x d = (d', ok) \<Longrightarrow>
      images d' = images d \<and> cont d' \<subseteq>\<^sub>m cont d \<and>
      (\<forall>i. i \<noteq> x \<and> map_option ct_name (cont d i) \<noteq> Some x \<longrightarrow> cont d' i = cont d i) \<and>
      (ok \<longrightarrow> cont d' x = None \<and> (\<forall>i. map_option ct_name (cont d' i) \<noteq> Some x))"
    and container_create: "ContainerCreate api c a d = (d', Some i) \<Longrightarrow>
      images d' = images d \<and> cont d i = None \<and>
      cont d' = (cont d)(i \<mapsto> a\<lparr>ct_running := False, ct_networks := [''bridge'']\<rparr>)"
    and container_create_failed: "ContainerCreate api c a d = (d', None) \<Longrightarrow> images d' = images d \<and> cont d' = cont d"
    and container_start: "ContainerStart api c i d = (d', ok) \<Longrightarrow>
      images d' = images d \<and> (\<forall>j. j \<noteq> i \<longrightarrow> cont d' j = cont d j) \<and>
      (ok \<longrightarrow> cont d' i = map_option (ct_running_update (\<lambda>_. True)) (cont d i) \<and> (\<forall>j. \<not> port_taken (cont d) i j))"
    and container_stop: "ContainerStop api c i d = (d', ok) \<Longrightarrow>
      images d' = images d \<and> (\<forall>j. j \<noteq> i \<longrightarrow> cont d' j = cont d j)"
    and network_connect: "NetworkConnect api c n i d = (d', ok) \<Longrightarrow>
      images d' = images d \<and> (\<forall>j. j \<noteq> i \<longrightarrow> cont d' j = cont d j) \<and>
      (ok \<longrightarrow> cont d' i = map_option (ct_networks_update (\<lambda>ns. ns @ [n])) (cont d i))"
    and dead_context: "cancelled c d \<Longrightarrow>
      ContainerStop api c i d = (d, False) \<and> ContainerRemove api c i d = (d, False) \<and> NetworkConnect api c n i d = (d, False)"

section \<open>An engine in memory\<close>

text \<open>
  What fails is chosen beforehand; the messages of a build are a function of its context, and the
  request is cancelled after a number of calls.
\<close>

record mem_faults =
  mf_msgs :: "build_context \<Rightarrow> daemon_message list"
  mf_eof :: bool
  mf_image_remove :: bool
  mf_remove :: bool
  mf_create :: bool
  mf_start :: bool
  mf_connect :: bool
  mf_cancel :: nat

record mem_engine =
  me_images :: "(string \<times> build_context \<times> int) list"
  me_containers :: "(string \<times> container) list"
  me_next :: nat
  me_networks :: "string list"
  me_calls :: nat

definition mem_images :: "mem_engine \<Rightarrow> string \<Rightarrow> build_context option" where
  "mem_images d r = map_option fst (map_of (me_images d) r)"

definition mem_cont :: "mem_engine \<Rightarrow> string \<Rightarrow> container option" where
  "mem_cont d i = map_of (me_containers d) i"

definition mem_cancelled :: "mem_faults \<Rightarrow> call_context \<Rightarrow> mem_engine \<Rightarrow> bool" where
  "mem_cancelled mf c d \<longleftrightarrow> c = Request \<and> mf_cancel mf \<le> me_calls d"

text \<open>A call that is made counts; one under a cancelled context fails, as does one that is chosen to.\<close>

definition mem_call :: "mem_faults \<Rightarrow> bool \<Rightarrow> call_context \<Rightarrow> 'r \<Rightarrow> (mem_engine \<Rightarrow> mem_engine \<times> 'r) \<Rightarrow> mem_engine \<Rightarrow> mem_engine \<times> 'r" where
  "mem_call mf works c failure action d =
     (if mem_cancelled mf c d then (d, failure)
      else let d1 = d\<lparr>me_calls := me_calls d + 1\<rparr> in if works then action d1 else (d1, failure))"

definition fresh_id :: "mem_engine \<Rightarrow> string" where
  "fresh_id d = CHR ''c'' # nat_str (me_next d)"

definition mem_create :: "container \<Rightarrow> mem_engine \<Rightarrow> mem_engine \<times> string option" where
  "mem_create a d =
     (if mem_cont d (fresh_id d) = None
      then (d\<lparr>me_containers := (fresh_id d, a\<lparr>ct_running := False, ct_networks := [''bridge'']\<rparr>) # me_containers d,
              me_next := me_next d + 1\<rparr>, Some (fresh_id d))
      else (d, None))"

text \<open>By id or by name.\<close>

definition mem_remove :: "string \<Rightarrow> mem_engine \<Rightarrow> mem_engine" where
  "mem_remove x d =
     d\<lparr>me_containers := filter (\<lambda>(i, a). i \<noteq> x \<and> map_option ct_name (mem_cont d i) \<noteq> Some x) (me_containers d)\<rparr>"

definition on_container :: "string \<Rightarrow> (container \<Rightarrow> container) \<Rightarrow> mem_engine \<Rightarrow> mem_engine" where
  "on_container i f d = d\<lparr>me_containers := AList.map_entry i f (me_containers d)\<rparr>"

definition mem_start :: "string \<Rightarrow> mem_engine \<Rightarrow> mem_engine \<times> bool" where
  "mem_start i d =
     (if list_ex (\<lambda>(j, b). port_taken (mem_cont d) i j) (me_containers d) then (d, False)
      else (on_container i (ct_running_update (\<lambda>_. True)) d, True))"

definition mem_build :: "mem_faults \<Rightarrow> string \<Rightarrow> build_context \<Rightarrow> mem_engine \<Rightarrow> mem_engine \<times> (string \<times> bool) option" where
  "mem_build mf t entries d =
     (let msgs = filter (\<lambda>m. m \<noteq> FailureMsg []) (mf_msgs mf entries)
      in (if first_failure msgs = None then d\<lparr>me_images := (tag_ref t, entries, 0) # me_images d\<rparr> else d,
          Some (build_stream msgs, mf_eof mf)))"

definition mem_api :: "mem_faults \<Rightarrow> mem_engine docker_api" where
  "mem_api mf = \<lparr>
     ImageRemove = (\<lambda>c t. mem_call mf (mf_image_remove mf) c False
       (\<lambda>d. (d\<lparr>me_images := AList.delete (tag_ref t) (me_images d)\<rparr>, True))),
     ImageBuild = (\<lambda>c t entries. mem_call mf True c None (mem_build mf t entries)),
     ImageList = (\<lambda>c d. Some (map (\<lambda>(t, im, created). ([t], created)) (me_images d))),
     ContainerRemove = (\<lambda>c x. mem_call mf (mf_remove mf) c False (\<lambda>d. (mem_remove x d, True))),
     ContainerCreate = (\<lambda>c a. mem_call mf (mf_create mf) c None (mem_create a)),
     ContainerStart = (\<lambda>c i. mem_call mf (mf_start mf) c False (mem_start i)),
     ContainerStop = (\<lambda>c i. mem_call mf True c False (\<lambda>d. (on_container i (ct_running_update (\<lambda>_. False)) d, True))),
     NetworkConnect = (\<lambda>c n i. mem_call mf (mf_connect mf) c False
       (\<lambda>d. (on_container i (ct_networks_update (\<lambda>ns. ns @ [n])) d, True))),
     NetworkList = (\<lambda>c d. Some (me_networks d)),
     NetworkCreate = (\<lambda>c n internal. mem_call mf True c False (\<lambda>d. (d\<lparr>me_networks := n # me_networks d\<rparr>, True)))\<rparr>"

lemma map_of_filter_keys: "map_of (filter (\<lambda>(k, v). P k) xs) k = (if P k then map_of xs k else None)"
  by (induction xs) auto

lemma mem_cont_remove:
  "mem_cont (mem_remove x d) i = (if i \<noteq> x \<and> map_option ct_name (mem_cont d i) \<noteq> Some x then mem_cont d i else None)"
  unfolding mem_cont_def mem_remove_def by (simp add: map_of_filter_keys)

lemma map_of_map_entry: "map_of (AList.map_entry k f xs) = (map_of xs)(k := map_option f (map_of xs k))"
  by (induction xs) (auto simp: fun_eq_iff)

lemma mem_cont_on: "mem_cont (on_container i f d) = (mem_cont d)(i := map_option f (mem_cont d i))"
  by (auto simp: mem_cont_def on_container_def map_of_map_entry fun_eq_iff)

lemma mem_unchanged [simp]:
  "mem_cont (d\<lparr>me_calls := n\<rparr>) = mem_cont d" "mem_images (d\<lparr>me_calls := n\<rparr>) = mem_images d"
  "mem_images (mem_remove x d) = mem_images d" "mem_images (on_container i f d) = mem_images d"
  "mem_cont (d\<lparr>me_images := im\<rparr>) = mem_cont d"
  by (auto simp: mem_cont_def mem_images_def mem_remove_def on_container_def fun_eq_iff)

lemma mem_no_port:
  assumes "\<not> list_ex (\<lambda>(j, b). port_taken (mem_cont d) i j) (me_containers d)"
  shows "\<not> port_taken (mem_cont d) i j"
proof
  assume taken: "port_taken (mem_cont d) i j"
  then obtain b where "mem_cont d j = Some b" by (auto simp: port_taken_def split: option.splits)
  then have "(j, b) \<in> set (me_containers d)" by (simp add: mem_cont_def map_of_SomeD)
  with taken assms show False by (auto simp: list_ex_iff)
qed

lemma mem_call_cases:
  assumes "mem_call mf works c failure action d = (d', r)"
  obtains (failed) "r = failure" "d' = d \<or> d' = d\<lparr>me_calls := me_calls d + 1\<rparr>"
  | (made) "action (d\<lparr>me_calls := me_calls d + 1\<rparr>) = (d', r)"
  using assms by (auto simp: mem_call_def Let_def split: if_splits)

lemma mem_image_remove:
  assumes "ImageRemove (mem_api mf) c t d = (d', ok)"
  shows "mem_cont d' = mem_cont d \<and> mem_images d' \<subseteq>\<^sub>m mem_images d \<and>
    (\<forall>r. r \<noteq> tag_ref t \<longrightarrow> mem_images d' r = mem_images d r) \<and> (ok \<longrightarrow> mem_images d' (tag_ref t) = None)"
  using assms unfolding mem_api_def docker_api.simps
  by (elim mem_call_cases) (auto simp: mem_images_def map_of_delete map_le_def)

lemma mem_container_remove:
  assumes "ContainerRemove (mem_api mf) c x d = (d', ok)"
  shows "mem_images d' = mem_images d \<and> mem_cont d' \<subseteq>\<^sub>m mem_cont d \<and>
    (\<forall>i. i \<noteq> x \<and> map_option ct_name (mem_cont d i) \<noteq> Some x \<longrightarrow> mem_cont d' i = mem_cont d i) \<and>
    (ok \<longrightarrow> mem_cont d' x = None \<and> (\<forall>i. map_option ct_name (mem_cont d' i) \<noteq> Some x))"
  using assms unfolding mem_api_def docker_api.simps
  by (elim mem_call_cases) (auto simp: mem_cont_remove map_le_def split: if_splits)

lemma mem_image_build:
  assumes "ImageBuild (mem_api mf) c t entries d = (d', Some (body, eof))"
  shows "mem_cont d' = mem_cont d \<and> (\<exists>msgs rest. FailureMsg [] \<notin> set msgs \<and> body @ rest = build_stream msgs \<and>
    (eof \<longrightarrow> rest = []) \<and>
    mem_images d' = (if first_failure msgs = None then (mem_images d)(tag_ref t \<mapsto> entries) else mem_images d))"
proof -
  let ?msgs = "filter (\<lambda>m. m \<noteq> FailureMsg []) (mf_msgs mf entries)"
  from assms have b: "mem_build mf t entries (d\<lparr>me_calls := me_calls d + 1\<rparr>) = (d', Some (body, eof))"
    unfolding mem_api_def docker_api.simps by (elim mem_call_cases) auto
  then have "FailureMsg [] \<notin> set ?msgs" "body @ [] = build_stream ?msgs" "mem_cont d' = mem_cont d"
    "mem_images d' = (if first_failure ?msgs = None then (mem_images d)(tag_ref t \<mapsto> entries) else mem_images d)"
    by (auto simp: mem_build_def Let_def mem_images_def fun_eq_iff split: if_splits)
  then show ?thesis by blast
qed

lemma mem_image_build_failed:
  "ImageBuild (mem_api mf) c t entries d = (d', None) \<Longrightarrow>
   mem_cont d' = mem_cont d \<and> (mem_images d' = mem_images d \<or> mem_images d' = (mem_images d)(tag_ref t \<mapsto> entries))"
  unfolding mem_api_def docker_api.simps by (elim mem_call_cases) (auto simp: mem_build_def Let_def)

lemma mem_container_create:
  "ContainerCreate (mem_api mf) c a d = (d', res) \<Longrightarrow> mem_images d' = mem_images d \<and>
   (case res of None \<Rightarrow> mem_cont d' = mem_cont d
    | Some i \<Rightarrow> mem_cont d i = None \<and> mem_cont d' = (mem_cont d)(i \<mapsto> a\<lparr>ct_running := False, ct_networks := [''bridge'']\<rparr>))"
  unfolding mem_api_def docker_api.simps
  by (elim mem_call_cases) (auto simp: mem_create_def mem_images_def mem_cont_def fun_eq_iff split: if_splits)

lemma mem_container_start:
  assumes "ContainerStart (mem_api mf) c i d = (d', ok)"
  shows "mem_images d' = mem_images d \<and> (\<forall>j. j \<noteq> i \<longrightarrow> mem_cont d' j = mem_cont d j) \<and>
    (ok \<longrightarrow> mem_cont d' i = map_option (ct_running_update (\<lambda>_. True)) (mem_cont d i) \<and> (\<forall>j. \<not> port_taken (mem_cont d) i j))"
  using assms mem_no_port [of "d\<lparr>me_calls := me_calls d + 1\<rparr>" i] unfolding mem_api_def docker_api.simps
  by (elim mem_call_cases) (auto simp: mem_start_def mem_cont_on split: if_splits)

lemma mem_others:
  "ContainerStop (mem_api mf) c i d = (d', ok) \<Longrightarrow> mem_images d' = mem_images d \<and> (\<forall>j. j \<noteq> i \<longrightarrow> mem_cont d' j = mem_cont d j)"
  "NetworkConnect (mem_api mf) c n i d = (d', ok) \<Longrightarrow> mem_images d' = mem_images d \<and> (\<forall>j. j \<noteq> i \<longrightarrow> mem_cont d' j = mem_cont d j) \<and>
    (ok \<longrightarrow> mem_cont d' i = map_option (ct_networks_update (\<lambda>ns. ns @ [n])) (mem_cont d i))"
  unfolding mem_api_def docker_api.simps by (elim mem_call_cases; auto simp: mem_cont_on)+

lemma mem_dead:
  "mem_cancelled mf c d \<Longrightarrow> ContainerStop (mem_api mf) c i d = (d, False) \<and>
   ContainerRemove (mem_api mf) c i d = (d, False) \<and> NetworkConnect (mem_api mf) c n i d = (d, False)"
  by (simp add: mem_api_def mem_call_def)

interpretation mem: docker_engine "mem_api mf" mem_images mem_cont "mem_cancelled mf"
proof (unfold_locales, goal_cases)
  case 1
  then show ?case by (rule mem_image_remove)
next
  case 2
  then show ?case by (rule mem_image_build)
next
  case 3
  then show ?case by (rule mem_image_build_failed)
next
  case 4
  then show ?case by (rule mem_container_remove)
next
  case 5
  from mem_container_create [OF this] show ?case by simp
next
  case 6
  from mem_container_create [OF this] show ?case by simp
next
  case 7
  then show ?case by (rule mem_container_start)
next
  case 8
  then show ?case by (rule mem_others)
next
  case 9
  then show ?case by (rule mem_others)
next
  case 10
  then show ?case by (rule mem_dead)
qed

section \<open>What a build and a run leave behind\<close>

text \<open>
  The container a run that succeeds leaves: 128 MB, one CPU, removed when it ends, its port bound on
  every address, on Docker's default bridge and the sandbox network.
\<close>

definition running_container :: "int \<Rightarrow> string \<Rightarrow> int \<Rightarrow> string list \<Rightarrow> container" where
  "running_container numCPUs submissionID hostPort networks =
     \<lparr>ct_name = ''submission-'' @ submissionID, ct_image = ''submission-'' @ submissionID,
      ct_host_port = hostPort, ct_host_ip = ''0.0.0.0'', ct_memory = 134217728,
      ct_cpuset = itoa (hostPort mod numCPUs), ct_autoremove = True, ct_running = True, ct_networks = networks\<rparr>"

text \<open>Every container of the second engine was in the first, unchanged; or all but \<open>i\<close>.\<close>

definition no_new :: "('d \<Rightarrow> string \<Rightarrow> container option) \<Rightarrow> 'd \<Rightarrow> 'd \<Rightarrow> bool" where
  "no_new cont d d' \<longleftrightarrow> (\<forall>j. cont d' j \<in> {None, cont d j})"

definition no_new_but :: "string \<Rightarrow> ('d \<Rightarrow> string \<Rightarrow> container option) \<Rightarrow> 'd \<Rightarrow> 'd \<Rightarrow> bool" where
  "no_new_but i cont d d' \<longleftrightarrow> (\<forall>j. j \<noteq> i \<longrightarrow> cont d' j \<in> {None, cont d j})"

text \<open>
  What a failure may leave: nothing new, or the one container whose removal, the last call that was
  made, failed.
\<close>

definition left_behind :: "'d docker_api \<Rightarrow> call_context \<Rightarrow> ('d \<Rightarrow> string \<Rightarrow> container option) \<Rightarrow> 'd \<Rightarrow> 'd \<Rightarrow> bool" where
  "left_behind api c cont d d' \<longleftrightarrow>
     no_new cont d d' \<or> (\<exists>i d1. ContainerRemove api c i d1 = (d', False) \<and> no_new_but i cont d d')"

text \<open>The listed tags that are to go: of a submission, of an image made more than 3600 seconds ago.\<close>

definition sweepable :: "(string list \<times> int) list \<Rightarrow> int \<Rightarrow> string \<Rightarrow> bool" where
  "sweepable imgs now t \<longleftrightarrow>
     (\<exists>(tags, created) \<in> set imgs. t \<in> set tags \<and> take 11 t = ''submission-'' \<and> (created + 3600) * 1000000000 < now)"

lemma has_submission: "has_prefix t ''submission-'' \<longleftrightarrow> take 11 t = ''submission-''"
  by (simp add: has_prefix_def eval_nat_numeral)

lemma read_broken: "read_build s False \<noteq> None"
proof (induction s "False" rule: read_build.induct)
  case (1 s)
  then show ?case by (subst read_build.simps) (auto split: option.splits prod.splits)
qed

context docker_engine
begin

lemma build_outcome:
  assumes "buildSubmissionImage api c source imageName language artifactType d = (d', err)"
  shows "cont d' = cont d" and "r \<noteq> tag_ref imageName \<Longrightarrow> images d' r = images d r"
    and "err = None \<Longrightarrow> \<exists>code. source = Some code \<and>
      images d' (tag_ref imageName) = Some (build_entries language artifactType code)"
    and "source = Some code \<Longrightarrow> images d' (tag_ref imageName) = Some im \<Longrightarrow>
      im = build_entries language artifactType code \<or>
      images d (tag_ref imageName) = Some im \<and> \<not> snd (ImageRemove api c imageName d)"
proof -
  have "cont d' = cont d \<and> (\<forall>r. r \<noteq> tag_ref imageName \<longrightarrow> images d' r = images d r) \<and>
    (err = None \<longrightarrow> (\<exists>code. source = Some code \<and>
      images d' (tag_ref imageName) = Some (build_entries language artifactType code))) \<and>
    (\<forall>code im. source = Some code \<and> images d' (tag_ref imageName) = Some im \<longrightarrow>
      im = build_entries language artifactType code \<or>
      images d (tag_ref imageName) = Some im \<and> \<not> snd (ImageRemove api c imageName d))"
  proof (cases source)
    case None
    with assms show ?thesis by (auto simp: buildSubmissionImage_def)
  next
    case (Some code)
    let ?im = "build_entries language artifactType code"
    obtain d1 ok where r: "ImageRemove api c imageName d = (d1, ok)" by (cases "ImageRemove api c imageName d")
    obtain d2 ans where b: "ImageBuild api c imageName ?im d1 = (d2, ans)" by (cases "ImageBuild api c imageName ?im d1")
    have d1: "cont d1 = cont d" "images d1 \<subseteq>\<^sub>m images d" "\<And>r. r \<noteq> tag_ref imageName \<Longrightarrow> images d1 r = images d r"
      "ok \<Longrightarrow> images d1 (tag_ref imageName) = None"
      using image_remove [OF r] by auto
    have e: "d' = d2" "err = (case ans of None \<Rightarrow> Some BuildCall | Some (body, eof) \<Rightarrow> read_build body eof)"
      using assms Some r b by (auto simp: buildSubmissionImage_def split: option.splits)
    have d2: "cont d2 = cont d1" "images d2 = images d1 \<or> images d2 = (images d1)(tag_ref imageName \<mapsto> ?im)"
    proof -
      show "cont d2 = cont d1" "images d2 = images d1 \<or> images d2 = (images d1)(tag_ref imageName \<mapsto> ?im)"
        using b image_build [of c imageName ?im d1 d2] image_build_failed [of c imageName ?im d1 d2]
        by (cases ans; fastforce)+
    qed
    have tagged: "images d2 = (images d1)(tag_ref imageName \<mapsto> ?im)" if none: "err = None"
    proof -
      obtain body eof where ans: "ans = Some (body, eof)" using none e(2) by (cases ans) auto
      with none e(2) read_broken have eof: "eof" by (cases eof) auto
      then obtain msgs where "FailureMsg [] \<notin> set msgs" "body = build_stream msgs"
        "images d2 = (if first_failure msgs = None then (images d1)(tag_ref imageName \<mapsto> ?im) else images d1)"
        using image_build [OF b [unfolded ans]] by auto
      with none e(2) ans read_stream [of msgs "[]" eof] show ?thesis by (auto split: option.splits)
    qed
    have old: "images d1 (tag_ref imageName) = Some im \<Longrightarrow> images d (tag_ref imageName) = Some im \<and> \<not> ok" for im
      using d1(2,4) by (force simp: map_le_def dom_def)
    show ?thesis using d1(1,3) d2 tagged old e(1) r Some by auto
  qed
  then show "cont d' = cont d" and "r \<noteq> tag_ref imageName \<Longrightarrow> images d' r = images d r"
    and "err = None \<Longrightarrow> \<exists>code. source = Some code \<and>
      images d' (tag_ref imageName) = Some (build_entries language artifactType code)"
    and "source = Some code \<Longrightarrow> images d' (tag_ref imageName) = Some im \<Longrightarrow>
      im = build_entries language artifactType code \<or>
      images d (tag_ref imageName) = Some im \<and> \<not> snd (ImageRemove api c imageName d)"
    by auto
qed

lemma removed_below: "ContainerRemove api c x d = (d', ok) \<Longrightarrow> images d' = images d \<and> cont d' j \<in> {None, cont d j}"
  using container_remove [of c x d d' ok] by (metis domIff insertCI map_le_def)

text \<open>Removing the container \<open>i\<close>, the only one that may be new.\<close>

lemma remove_left_behind:
  assumes "ContainerRemove api c i d = (d', ok)" and "no_new_but i cont d0 d"
  shows "left_behind api c cont d0 d'"
proof -
  have others: "no_new_but i cont d0 d'"
    unfolding no_new_but_def
  proof (intro allI impI)
    fix j assume "j \<noteq> i"
    with assms(2) removed_below [OF assms(1), of j] show "cont d' j \<in> {None, cont d0 j}"
      by (auto simp: no_new_but_def)
  qed
  show ?thesis
  proof (cases ok)
    case True
    then have "cont d' i = None" using container_remove [OF assms(1)] by blast
    with others have "no_new cont d0 d'" unfolding no_new_def no_new_but_def by (metis insertI1)
    then show ?thesis by (simp add: left_behind_def)
  next
    case False
    with assms(1) others show ?thesis by (auto simp: left_behind_def)
  qed
qed

lemma cleanup_left_behind:
  assumes "no_new_but i cont d0 d"
  shows "left_behind api c cont d0 (cleanup api c i d) \<and> images (cleanup api c i d) = images d"
proof -
  obtain d1 s where st: "ContainerStop api c i d = (d1, s)" by (cases "ContainerStop api c i d")
  obtain d2 r where rm: "ContainerRemove api c i d1 = (d2, r)" by (cases "ContainerRemove api c i d1")
  have "no_new_but i cont d0 d1" using assms container_stop [OF st] by (auto simp: no_new_but_def)
  with remove_left_behind [OF rm] st rm removed_below [OF rm] container_stop [OF st] show ?thesis
    by (simp add: cleanup_def)
qed

lemma run_outcome:
  assumes run: "runSubmissionContainer api c numCPUs submissionID (submission_name submissionID) hostPort d = (d', res)"
  shows "images d' = images d \<and>
    (case res of
       Inr i \<Rightarrow> cont d' i = Some (running_container numCPUs submissionID hostPort [''bridge'', ''iicpc-sandbox-net'']) \<and>
         no_new_but i cont d d'
     | Inl e \<Rightarrow> left_behind api c cont d d' \<and> (e = CreateFailed \<longrightarrow> no_new cont d d'))"
proof -
  let ?c = "container_config numCPUs submissionID (submission_name submissionID) hostPort"
  obtain d1 ok where rm: "ContainerRemove api c (submission_name submissionID) d = (d1, ok)"
    by (cases "ContainerRemove api c (submission_name submissionID) d")
  note d1 = removed_below [OF rm]
  obtain d2 created where cr: "ContainerCreate api c ?c d1 = (d2, created)" by (cases "ContainerCreate api c ?c d1")
  show ?thesis
  proof (cases created)
    case None
    then have "d' = d2" "res = Inl CreateFailed" using run rm cr by (auto simp: runSubmissionContainer_def)
    with None cr container_create_failed d1 show ?thesis by (auto simp: no_new_def left_behind_def)
  next
    case (Some i)
    then have d2: "images d2 = images d1"
      "cont d2 = (cont d1)(i \<mapsto> ?c\<lparr>ct_running := False, ct_networks := [''bridge'']\<rparr>)"
      using container_create cr by auto
    have new2: "no_new_but i cont d d2" using d1 d2(2) by (auto simp: no_new_but_def)
    obtain d3 started where st: "ContainerStart api c i d2 = (d3, started)" by (cases "ContainerStart api c i d2")
    note d3 = container_start [OF st]
    have new3: "no_new_but i cont d d3" using d3 new2 by (simp add: no_new_but_def)
    obtain d4 connected where nc: "NetworkConnect api c sandbox_net i d3 = (d4, connected)"
      by (cases "NetworkConnect api c sandbox_net i d3")
    note d4 = network_connect [OF nc]
    have new4: "no_new_but i cont d d4" using d4 new3 by (simp add: no_new_but_def)
    consider (start) "\<not> started" | (conn) "started" "\<not> connected" | (ok) "started" "connected" by blast
    then show ?thesis
    proof cases
      case start
      then have "d' = cleanup api c i d3" "res = Inl StartFailed"
        using run rm cr Some st by (auto simp: runSubmissionContainer_def)
      with cleanup_left_behind [OF new3] d1 d2 d3 show ?thesis by simp
    next
      case conn
      then have "d' = cleanup api c i d4" "res = Inl ConnectFailed"
        using run rm cr Some st nc by (auto simp: runSubmissionContainer_def)
      with cleanup_left_behind [OF new4] d1 d2 d3 d4 show ?thesis by simp
    next
      case ok
      then have "d' = d4" "res = Inr i"
        using run rm cr Some st nc by (auto simp: runSubmissionContainer_def)
      with ok d1 d2 d3 d4 new4 show ?thesis
        by (simp add: running_container_def container_config_def submission_name_def sandbox_net_def cpu_core_def)
    qed
  qed
qed

text \<open>A client that goes away between the start and the network call.\<close>

lemma abandoned_container:
  assumes "ContainerRemove api c (submission_name submissionID) d = (d1, removed)"
    and "ContainerCreate api c (container_config numCPUs submissionID (submission_name submissionID) hostPort) d1 = (d2, Some i)"
    and "ContainerStart api c i d2 = (d3, True)" and "cancelled c d3"
  shows "runSubmissionContainer api c numCPUs submissionID (submission_name submissionID) hostPort d = (d3, Inl ConnectFailed)"
    and "cont d3 i = Some (running_container numCPUs submissionID hostPort [''bridge''])"
proof -
  note dead = dead_context [OF assms(4)]
  show "runSubmissionContainer api c numCPUs submissionID (submission_name submissionID) hostPort d = (d3, Inl ConnectFailed)"
    using assms(1-3) by (simp add: runSubmissionContainer_def dead cleanup_def)
  show "cont d3 i = Some (running_container numCPUs submissionID hostPort [''bridge''])"
    using container_create [OF assms(2)] container_start [OF assms(3)]
    by (simp add: running_container_def container_config_def submission_name_def cpu_core_def)
qed

text \<open>Two submissions with one port.\<close>

lemma port_refused:
  assumes run: "runSubmissionContainer api c numCPUs submissionID (submission_name submissionID) hostPort d = (d', res)"
    and other: "cont d j = Some b" "ct_running b" "ct_host_ip b = ''0.0.0.0''" "ct_host_port b = hostPort"
    and name: "ct_name b \<noteq> submission_name submissionID" "j \<noteq> submission_name submissionID"
  shows "res = Inl CreateFailed \<or> res = Inl StartFailed"
proof -
  let ?c = "container_config numCPUs submissionID (submission_name submissionID) hostPort"
  obtain d1 ok where rm: "ContainerRemove api c (submission_name submissionID) d = (d1, ok)"
    by (cases "ContainerRemove api c (submission_name submissionID) d")
  have j1: "cont d1 j = Some b" using container_remove [OF rm] other(1) name by simp
  obtain d2 created where cr: "ContainerCreate api c ?c d1 = (d2, created)" by (cases "ContainerCreate api c ?c d1")
  show ?thesis
  proof (cases created)
    case None
    with run rm cr show ?thesis by (auto simp: runSubmissionContainer_def)
  next
    case (Some i)
    then have d2: "cont d1 i = None" "cont d2 = (cont d1)(i \<mapsto> ?c\<lparr>ct_running := False, ct_networks := [''bridge'']\<rparr>)"
      using container_create cr by auto
    then have "port_taken (cont d2) i j"
      using j1 other by (auto simp: port_taken_def container_config_def)
    then have "\<not> snd (ContainerStart api c i d2)"
      using container_start [of c i d2] by (cases "ContainerStart api c i d2") auto
    with run rm cr Some show ?thesis
      by (auto simp: runSubmissionContainer_def split: prod.splits)
  qed
qed

text \<open>A sweep, with the tags whose removal failed.\<close>

definition swept :: "(string \<Rightarrow> bool) \<Rightarrow> 'd \<Rightarrow> 'd \<Rightarrow> string list \<Rightarrow> bool" where
  "swept P d d' failed \<longleftrightarrow> images d' \<subseteq>\<^sub>m images d \<and> cont d' = cont d \<and>
     (\<forall>r. (\<forall>t. P t \<longrightarrow> r \<noteq> tag_ref t) \<longrightarrow> images d' r = images d r) \<and>
     (\<forall>t. P t \<longrightarrow> t \<in> set failed \<or> images d' (tag_ref t) = None) \<and>
     (\<forall>t \<in> set failed. P t \<and> (\<exists>d1 d2. ImageRemove api Background t d1 = (d2, False)))"

lemma swept_compose:
  assumes "swept P d d1 f1" and "swept Q d1 d2 f2"
  shows "swept (\<lambda>t. P t \<or> Q t) d d2 (f1 @ f2)"
proof -
  have gone: "images d1 r = None \<Longrightarrow> images d2 r = None" for r
    using assms(2) by (auto simp: swept_def map_le_def dom_def)
  have "images d2 \<subseteq>\<^sub>m images d" using assms map_le_trans unfolding swept_def by blast
  with assms gone show ?thesis by (auto simp: swept_def)
qed

lemma swept_nothing: "(\<And>t. \<not> P t) \<Longrightarrow> swept P d d []"
  by (simp add: swept_def)

lemma swept_one:
  assumes "ImageRemove api Background t d = (d', ok)"
  shows "swept (\<lambda>u. u = t) d d' (if ok then [] else [t])"
  using image_remove [OF assms] assms by (cases ok) (auto simp: swept_def)

lemma sweep_tags_swept:
  "sweep_tags api now created tags d = (d', failed) \<Longrightarrow>
   swept (\<lambda>t. t \<in> set tags \<and> has_prefix t ''submission-'' \<and> image_old now created) d d' failed"
proof (induction tags arbitrary: d d' failed)
  case Nil
  then show ?case by (simp add: swept_nothing)
next
  case (Cons t tags)
  let ?P = "\<lambda>u. has_prefix u ''submission-'' \<and> image_old now created"
  show ?case
  proof (cases "?P t")
    case True
    obtain d1 ok where rm: "ImageRemove api Background t d = (d1, ok)" by (cases "ImageRemove api Background t d")
    obtain d2 f where rest: "sweep_tags api now created tags d1 = (d2, f)" by (cases "sweep_tags api now created tags d1")
    have "(\<lambda>u. u = t \<or> u \<in> set tags \<and> ?P u) = (\<lambda>u. u \<in> set (t # tags) \<and> ?P u)" using True by auto
    moreover have "d' = d2" "failed = (if ok then [] else [t]) @ f"
      using Cons.prems True rm rest by (auto split: if_splits)
    ultimately show ?thesis
      using swept_compose [OF swept_one [OF rm] Cons.IH [OF rest]] by simp
  next
    case False
    then have "(\<lambda>u. u \<in> set tags \<and> ?P u) = (\<lambda>u. u \<in> set (t # tags) \<and> ?P u)" by auto
    with Cons.IH [of d d' failed] Cons.prems False show ?thesis by simp
  qed
qed

lemma sweep_images_swept: "sweep_images api now imgs d = (d', failed) \<Longrightarrow> swept (sweepable imgs now) d d' failed"
proof (induction imgs arbitrary: d d' failed)
  case Nil
  then show ?case by (simp add: swept_nothing sweepable_def)
next
  case (Cons img imgs)
  obtain tags created where img: "img = (tags, created)" by (cases img)
  obtain d1 f1 where s1: "sweep_tags api now created tags d = (d1, f1)" by (cases "sweep_tags api now created tags d")
  obtain d2 f2 where s2: "sweep_images api now imgs d1 = (d2, f2)" by (cases "sweep_images api now imgs d1")
  have "(\<lambda>t. t \<in> set tags \<and> has_prefix t ''submission-'' \<and> image_old now created \<or> sweepable imgs now t) =
      sweepable (img # imgs) now"
    unfolding img by (auto simp: sweepable_def has_submission image_old_def fun_eq_iff)
  moreover have "d' = d2" "failed = f1 @ f2" using Cons.prems img s1 s2 by auto
  ultimately show ?case
    using swept_compose [OF sweep_tags_swept [OF s1] Cons.IH [OF s2]] by simp
qed

text \<open>The janitor adds no image and touches no container, and what it removes was tagged for a submission.\<close>

lemma swept_submissions:
  assumes "swept (sweepable imgs now) d d' failed"
  shows "cont d' = cont d" and "images d' \<subseteq>\<^sub>m images d"
    and "(\<And>t. has_prefix t ''submission-'' \<Longrightarrow> r \<noteq> tag_ref t) \<Longrightarrow> images d' r = images d r"
proof -
  assume "\<And>t. has_prefix t ''submission-'' \<Longrightarrow> r \<noteq> tag_ref t"
  then have "\<forall>t. sweepable imgs now t \<longrightarrow> r \<noteq> tag_ref t" by (auto simp: sweepable_def has_submission)
  with assms show "images d' r = images d r" by (simp add: swept_def)
qed (use assms in \<open>simp_all add: swept_def\<close>)

lemma janitor_only_submissions:
  "cont (janitor api es d) = cont d \<and> images (janitor api es d) \<subseteq>\<^sub>m images d \<and>
   (\<forall>r. (\<forall>t. has_prefix t ''submission-'' \<longrightarrow> r \<noteq> tag_ref t) \<longrightarrow> images (janitor api es d) r = images d r)"
proof (induction es arbitrary: d)
  case (Cons e es)
  show ?case
  proof (cases e)
    case (JanitorTick now)
    let ?d = "fst (cleanupOldImages api now d)"
    have "cont ?d = cont d \<and> images ?d \<subseteq>\<^sub>m images d \<and>
      (\<forall>r. (\<forall>t. has_prefix t ''submission-'' \<longrightarrow> r \<noteq> tag_ref t) \<longrightarrow> images ?d r = images d r)"
    proof (cases "ImageList api Background d")
      case (Some imgs)
      obtain d1 f where "sweep_images api now imgs d = (d1, f)" by (cases "sweep_images api now imgs d")
      with Some swept_submissions [OF sweep_images_swept [OF this]] show ?thesis
        by (simp add: cleanupOldImages_def)
    qed (simp add: cleanupOldImages_def)
    with Cons.IH [of ?d] JanitorTick show ?thesis by (auto intro: map_le_trans)
  qed simp
qed simp

end

section \<open>Properties\<close>


text \<open>
  C11 (error). Starting a container either leaves it running from the image of the submission, on its port
  and CPU, with 128 MB and automatic removal, on the sandbox network, and adds no other; or it fails and
  leaves nothing new, except that when the last call, the removal of the container that was created,
  failed as well, that one may remain. After a failed creation nothing is new.
\<close>

theorem no_container_leak:
  assumes "docker_engine api images cont cancelled"
    and "runSubmissionContainer api c numCPUs submissionID (''submission-'' @ submissionID) hostPort d = (d', res)"
  shows "case res of
       Inr i \<Rightarrow> cont d' i = Some (running_container numCPUs submissionID hostPort [''bridge'', ''iicpc-sandbox-net'']) \<and>
         no_new_but i cont d d'
     | Inl e \<Rightarrow> left_behind api c cont d d' \<and> (e = CreateFailed \<longrightarrow> no_new cont d d')"
  using docker_engine.run_outcome [OF assms(1)] assms(2) by (fastforce simp: submission_name_def)

text \<open>
  C40 (error). A client that goes away leaks a container: the clean-up runs under the context of the
  request, so when that is cancelled after the container was started, the stop and the removal fail with
  the network call, the request is answered with an error and the container keeps running, on the bridge
  alone.
\<close>

theorem disconnect_leaks_container:
  assumes "docker_engine api images cont cancelled"
    and "ContainerRemove api c (''submission-'' @ submissionID) d = (d1, removed)"
    and "ContainerCreate api c (container_config numCPUs submissionID (''submission-'' @ submissionID) hostPort) d1 = (d2, Some i)"
    and "ContainerStart api c i d2 = (d3, True)" and "cancelled c d3"
  shows "runSubmissionContainer api c numCPUs submissionID (''submission-'' @ submissionID) hostPort d = (d3, Inl ConnectFailed) \<and>
    cont d3 i = Some (running_container numCPUs submissionID hostPort [''bridge''])"
  using docker_engine.abandoned_container [OF assms(1), unfolded submission_name_def, OF assms(2-5)] by (rule conjI)

text \<open>
  C39 (safety). One port, one submission: while the container of one submission runs, another submission
  whose identifier hashes to the same port cannot be started, whatever else the engine does.
\<close>

theorem port_conflict:
  assumes "docker_engine api images cont cancelled"
    and "getDeterministicPort first = getDeterministicPort second" and "first \<noteq> second"
    and "cont d i = Some (running_container cpus first (getDeterministicPort first) networks)"
    and "i \<noteq> ''submission-'' @ second"
    and "runSubmissionContainer api c numCPUs second (''submission-'' @ second) (getDeterministicPort second) d = (d', res)"
  shows "res = Inl CreateFailed \<or> res = Inl StartFailed"
  by (rule docker_engine.port_refused [OF assms(1), unfolded submission_name_def, OF assms(6,4)])
    (use assms(2,3,5) in \<open>simp_all add: running_container_def\<close>)

text \<open>
  C36 (functional). A sweep removes the listed tags that start with \<open>submission-\<close> and belong to an image
  created more than 3600 seconds ago, and touches no other image: each such tag is gone or named as failed,
  and it is named only when its removal did fail. Without the list nothing happens.
\<close>

theorem sweep_exact:
  assumes "docker_engine api images cont cancelled" and "cleanupOldImages api now d = (d', failed, err)"
  shows "case ImageList api Background d of
      None \<Rightarrow> d' = d \<and> failed = [] \<and> err
    | Some imgs \<Rightarrow> \<not> err \<and> images d' \<subseteq>\<^sub>m images d \<and> cont d' = cont d \<and>
        (\<forall>r. (\<forall>t. sweepable imgs now t \<longrightarrow> r \<noteq> tag_ref t) \<longrightarrow> images d' r = images d r) \<and>
        (\<forall>t. sweepable imgs now t \<longrightarrow> t \<in> set failed \<or> images d' (tag_ref t) = None) \<and>
        (\<forall>t \<in> set failed. sweepable imgs now t \<and> (\<exists>d1 d2. ImageRemove api Background t d1 = (d2, False)))"
  using docker_engine.sweep_images_swept [OF assms(1)] assms(2)
  by (auto simp: cleanupOldImages_def docker_engine.swept_def [OF assms(1)] split: option.splits prod.splits)

section \<open>Witnesses\<close>

definition empty_engine :: mem_engine where
  "empty_engine = \<lparr>me_images = [(''submission-s:latest'', [], 0), (''alpine:3.19'', [], 0)], me_containers = [],
     me_next = 0, me_networks = [], me_calls = 0\<rparr>"

definition working_faults :: mem_faults where
  "working_faults = \<lparr>mf_msgs = (\<lambda>_. [StreamMsg ''ok'']), mf_eof = True, mf_image_remove = True, mf_remove = True,
     mf_create = True, mf_start = True, mf_connect = True, mf_cancel = 1000\<rparr>"

lemmas mem_eval = mem_api_def mem_call_def mem_cancelled_def mem_build_def mem_create_def mem_start_def
  empty_engine_def working_faults_def

lemma tag_ref_s: "tag_ref ''submission-s'' = ''submission-s:latest''" "tag_ref ''submission-s:latest'' = ''submission-s:latest''"
  by (simp_all add: tag_ref_def)


definition start_fails :: mem_faults where
  "start_fails = working_faults\<lparr>mf_start := False\<rparr>"

theorem no_container_leak_witness:
  "left_behind (mem_api start_fails) Request mem_cont empty_engine
     (fst (runSubmissionContainer (mem_api start_fails) Request 4 ''s'' (''submission-'' @ ''s'') 30044 empty_engine))"
proof -
  let ?r = "runSubmissionContainer (mem_api start_fails) Request 4 ''s'' (''submission-'' @ ''s'') 30044 empty_engine"
  have "snd ?r = Inl StartFailed"
    by (simp add: runSubmissionContainer_def mem_eval start_fails_def mem_remove_def mem_cont_def Let_def)
  then have "?r = (fst ?r, Inl StartFailed)" by (simp add: prod_eq_iff)
  from no_container_leak [OF mem.docker_engine_axioms this] show ?thesis by (simp del: append_Cons append_Nil)
qed

text \<open>The request is cancelled after the third call, the start.\<close>

theorem disconnect_leaks_container_witness:
  "snd (runSubmissionContainer (mem_api (working_faults\<lparr>mf_cancel := 3\<rparr>)) Request 4 ''s'' (''submission-'' @ ''s'') 30044 empty_engine) =
     Inl ConnectFailed"
proof -
  let ?mf = "working_faults\<lparr>mf_cancel := 3\<rparr>" and ?a = "container_config 4 ''s'' (''submission-'' @ ''s'') 30044"
  let ?d1 = "empty_engine\<lparr>me_calls := 1\<rparr>"
  let ?d2 = "?d1\<lparr>me_containers := [(''c0'', ?a\<lparr>ct_running := False, ct_networks := [''bridge'']\<rparr>)], me_next := 1, me_calls := 2\<rparr>"
  let ?d3 = "?d2\<lparr>me_containers := [(''c0'', ?a\<lparr>ct_running := True, ct_networks := [''bridge'']\<rparr>)], me_calls := 3\<rparr>"
  have "ContainerRemove (mem_api ?mf) Request (''submission-'' @ ''s'') empty_engine = (?d1, True)"
    by (simp add: mem_eval mem_remove_def)
  moreover have "ContainerCreate (mem_api ?mf) Request ?a ?d1 = (?d2, Some ''c0'')"
    by (simp add: mem_eval mem_cont_def fresh_id_def Let_def)
  moreover have "ContainerStart (mem_api ?mf) Request ''c0'' ?d2 = (?d3, True)"
    by (simp add: mem_eval mem_cont_def port_taken_def on_container_def)
  moreover have "mem_cancelled ?mf Request ?d3" by (simp add: mem_cancelled_def working_faults_def)
  ultimately show ?thesis
    using disconnect_leaks_container [OF mem.docker_engine_axioms] by simp
qed

text \<open>Both of these identifiers get port 30044.\<close>

definition port_engine :: mem_engine where
  "port_engine = empty_engine\<lparr>me_containers := [(''c9'', running_container 4 ''a8'' (getDeterministicPort ''a8'') [])]\<rparr>"

theorem port_conflict_witness:
  "snd (runSubmissionContainer (mem_api working_faults) Request 4 ''t7'' (''submission-'' @ ''t7'') (getDeterministicPort ''t7'') port_engine)
     \<in> {Inl CreateFailed, Inl StartFailed}"
proof -
  have "getDeterministicPort ''a8'' = getDeterministicPort ''t7''" by (simp add: port_collision)
  moreover have "mem_cont port_engine ''c9'' = Some (running_container 4 ''a8'' (getDeterministicPort ''a8'') [])"
    by (simp add: mem_cont_def port_engine_def)
  ultimately show ?thesis
    using port_conflict [OF mem.docker_engine_axioms _ _ _ _ prod.collapse [symmetric], of "''a8''" "''t7''" port_engine "''c9''"]
    by simp
qed

lemma tags_s: "take 11 ''submission-s:latest'' = ''submission-''" "\<not> has_prefix ''alpine:3.19'' ''submission-''"
  by (simp_all add: has_submission)

theorem sweep_exact_witness:
  "mem_images (fst (cleanupOldImages (mem_api working_faults) (3601 * 10 ^ 9) empty_engine)) ''submission-s:latest'' = None"
proof -
  let ?imgs = "[([''submission-s:latest''], 0), ([''alpine:3.19''], 0)]"
  have l: "ImageList (mem_api working_faults) Background empty_engine = Some ?imgs"
    by (simp add: mem_api_def empty_engine_def)
  have s: "sweepable ?imgs (3601 * 10 ^ 9) ''submission-s:latest''"
    using tags_s(1) by (simp add: sweepable_def)
  obtain d' where "cleanupOldImages (mem_api working_faults) (3601 * 10 ^ 9) empty_engine = (d', [], False)"
    using tags_s by (simp add: cleanupOldImages_def l has_submission image_old_def) (simp add: mem_eval)
  note swept = this
  from sweep_exact [OF mem.docker_engine_axioms this, unfolded l] s
  have "mem_images d' (tag_ref ''submission-s:latest'') = None" by auto
  with swept show ?thesis by (simp add: tag_ref_s)
qed

end
