(* ===== verification/Sandbox.thy ===== *)
theory Sandbox
  imports SandboxDocker Config Http
begin

text \<open>
  \<open>cmd/sandbox\<close> above the Docker calls: the readiness probe and \<open>executeSubmissionInternal\<close>, the
  gRPC \<open>ExecuteSubmission\<close>, \<open>triggerFleetBenchmark\<close>, the HTTP \<open>uploadHandler\<close> with its temporary
  file, and the start-up of \<open>main\<close>. The file system, the clock, the network probe and the HTTP
  client are inputs; the Docker engine is the parameter \<open>api\<close> of \<open>SandboxDocker\<close>.
\<close>

section \<open>waitForReady\<close>

text \<open>
  Attempt \<open>i\<close> of \<open>DialTimeout\<close> on an endpoint: whether it connected and how long it took in ms.
  The loop runs while the clock is before the deadline of ten seconds, sleeping 200 ms after a
  failure; \<open>wait_from\<close> gives whether it connected, the attempts before that and the time.
\<close>

function wait_from :: "(nat \<Rightarrow> bool \<times> nat) \<Rightarrow> nat \<Rightarrow> nat \<Rightarrow> bool \<times> nat \<times> nat" where
  "wait_from dial i now =
     (if now < 10000 then
        (if fst (dial i) then (True, i, now + snd (dial i))
         else wait_from dial (i + 1) (now + snd (dial i) + 200))
      else (False, i, now))"
  by pat_completeness auto
termination
  by (relation "measure (\<lambda>(dial, i, now). 10000 - now)") auto

declare wait_from.simps [simp del]

definition waitForReady :: "(string \<Rightarrow> nat \<Rightarrow> bool \<times> nat) \<Rightarrow> string \<Rightarrow> bool" where
  "waitForReady dial endpoint = fst (wait_from (dial endpoint) 0 0)"

lemma wait_from_bounds:
  assumes dials: "\<And>i. snd (dial i) \<le> 500" and "now \<le> 10700" "200 * i \<le> now" "i \<le> 50"
  shows "case wait_from dial i now of (ready, n, t) \<Rightarrow>
      t \<le> 10700 \<and> n \<le> 50 \<and> (ready \<longrightarrow> n < 50 \<and> fst (dial n)) \<and> (\<not> ready \<longrightarrow> 10000 \<le> t) \<and>
      (\<forall>k. i \<le> k \<and> k < n \<longrightarrow> \<not> fst (dial k))"
  using assms(2-4)
proof (induction "10000 - now" arbitrary: i now rule: less_induct)
  case less
  have s: "snd (dial i) \<le> 500" by (rule dials)
  consider (late) "\<not> now < 10000" | (ready) "now < 10000" "fst (dial i)" | (again) "now < 10000" "\<not> fst (dial i)"
    by blast
  then show ?case
  proof cases
    case late
    with less.prems show ?thesis by (subst wait_from.simps) auto
  next
    case ready
    with less.prems s show ?thesis by (subst wait_from.simps) auto
  next
    case again
    then have "case wait_from dial (i + 1) (now + snd (dial i) + 200) of (ready, n, t) \<Rightarrow>
        t \<le> 10700 \<and> n \<le> 50 \<and> (ready \<longrightarrow> n < 50 \<and> fst (dial n)) \<and> (\<not> ready \<longrightarrow> 10000 \<le> t) \<and>
        (\<forall>k. i + 1 \<le> k \<and> k < n \<longrightarrow> \<not> fst (dial k))"
      by (intro less.hyps) (use again less.prems s in \<open>auto simp: algebra_simps\<close>)
    moreover have "wait_from dial i now = wait_from dial (i + 1) (now + snd (dial i) + 200)"
      using again by (subst wait_from.simps) simp
    ultimately show ?thesis
      using again(2) by (auto simp: Suc_le_eq dest: le_neq_implies_less)
  qed
qed

text \<open>
  C37 (termination). With dials of at most 500 ms the probe ends within 10.7 seconds and never makes
  more than 50 attempts; when it reports ready an attempt connected and none before it did, and it
  gives up only after ten seconds in which every attempt failed.
\<close>

theorem readiness_probe_ends:
  assumes "\<And>i. snd (dial i) \<le> 500"
  shows "case wait_from dial 0 0 of (ready, n, t) \<Rightarrow>
    t \<le> 10700 \<and> (if ready then n + 1 else n) \<le> 50 \<and> (ready \<longrightarrow> fst (dial n)) \<and> (\<not> ready \<longrightarrow> 10000 \<le> t) \<and>
    (\<forall>k<n. \<not> fst (dial k))"
  using wait_from_bounds [of dial 0 0] assms by (auto split: prod.splits)

theorem readiness_probe_ends_witness:
  "snd (snd (wait_from (\<lambda>i. (i = 2, 500)) 0 0)) \<le> 10700"
  using readiness_probe_ends [of "\<lambda>i. (i = 2, 500)"] by (simp split: prod.splits)

section \<open>executeSubmissionInternal\<close>

datatype exec_error = BuildErr build_error | RunErr run_error | NotReady

text \<open>\<open>Sprintf "%s:%d"\<close>.\<close>

definition endpoint_of :: "string \<Rightarrow> int \<Rightarrow> string" where
  "endpoint_of ip port = ip @ '':'' @ itoa port"

definition executeSubmissionInternal ::
    "'d docker_api \<Rightarrow> call_context \<Rightarrow> environ \<Rightarrow> int \<Rightarrow> (string \<Rightarrow> nat \<Rightarrow> bool \<times> nat) \<Rightarrow> string \<Rightarrow> string option \<Rightarrow> string \<Rightarrow> string \<Rightarrow>
     'd \<Rightarrow> 'd \<times> (exec_error + string \<times> int)" where
  "executeSubmissionInternal api c env numCPUs dial submissionID source language artifactType d =
     (let imageName = submission_name submissionID;
          (d1, err) = buildSubmissionImage api c source imageName language artifactType d
      in case err of
           Some e \<Rightarrow> (d1, Inl (BuildErr e))
         | None \<Rightarrow>
             (let hostPort = getDeterministicPort submissionID; targetIP = resolveTargetIP env;
                  (d2, res) = runSubmissionContainer api c numCPUs submissionID imageName hostPort d1
              in case res of
                   Inl e \<Rightarrow> (d2, Inl (RunErr e))
                 | Inr i \<Rightarrow>
                     if \<not> waitForReady dial (endpoint_of targetIP hostPort)
                     then (fst (ContainerRemove api c i d2), Inl NotReady)
                     else (d2, Inr (targetIP, hostPort))))"

section \<open>ExecuteSubmission\<close>

record execute_request =
  eq_SubmissionId :: string
  eq_SourceFilePath :: string
  eq_Language :: string

datatype reply_text = Text string | ErrorText exec_error

record execute_response =
  ep_Success :: bool
  ep_Message :: reply_text
  ep_ContainerIp :: string
  ep_ContainerPort :: int

text \<open>The state: the engine and the files; what the process reads from outside.\<close>

record 'd world =
  wd_engine :: 'd
  wd_files :: "(string \<times> string) list"

record outside =
  os_env :: environ
  os_cpus :: int
  os_dial :: "string \<Rightarrow> nat \<Rightarrow> bool \<times> nat"
  os_temp :: "string \<Rightarrow> string option"
  os_copy :: bool
  os_close :: bool
  os_post :: "string \<Rightarrow> string \<Rightarrow> int option option"

definition remove_file :: "string \<Rightarrow> 'd world \<Rightarrow> 'd world" where
  "remove_file path w = w\<lparr>wd_files := AList.delete path (wd_files w)\<rparr>"

definition ExecuteSubmission ::
    "'d docker_api \<Rightarrow> outside \<Rightarrow> execute_request \<Rightarrow> 'd world \<Rightarrow> 'd world \<times> execute_response" where
  "ExecuteSubmission api os req w =
     (if \<not> validIDPattern (eq_SubmissionId req)
      then (remove_file (eq_SourceFilePath req) w,
            \<lparr>ep_Success = False, ep_Message = Text ''Invalid submission ID format'', ep_ContainerIp = [], ep_ContainerPort = 0\<rparr>)
      else let language = (if eq_Language req = [] then ''go'' else eq_Language req);
               (d1, res) = executeSubmissionInternal api Request (os_env os) (os_cpus os) (os_dial os) (eq_SubmissionId req)
                 (map_of (wd_files w) (eq_SourceFilePath req)) language ''source'' (wd_engine w);
               w1 = remove_file (eq_SourceFilePath req) (w\<lparr>wd_engine := d1\<rparr>)
           in case res of
                Inl e \<Rightarrow> (w1, \<lparr>ep_Success = False, ep_Message = ErrorText e, ep_ContainerIp = [], ep_ContainerPort = 0\<rparr>)
              | Inr (ip, port) \<Rightarrow> (w1, \<lparr>ep_Success = True, ep_Message = Text ''Container is running'',
                  ep_ContainerIp = ip, ep_ContainerPort = port\<rparr>))"

section \<open>triggerFleetBenchmark\<close>

datatype trigger_error = CreateRequest | CallFleet | FleetStatus int

text \<open>A Go map is marshalled with its keys in order.\<close>

definition fleet_payload :: "environ \<Rightarrow> string \<Rightarrow> string \<Rightarrow> json" where
  "fleet_payload env submissionID endpoint =
     (let cfg = benchmarkDefaults env
      in JObj [(''endpoint'', JStr endpoint), (''num_bots'', JNum (int_lit (bc_NumBots cfg))),
           (''num_orders'', JNum (int_lit (bc_NumOrders cfg))), (''submission_id'', JStr submissionID),
           (''tps'', JNum (int_lit (bc_TPS cfg)))])"

text \<open>\<open>post url body\<close>: no request for this URL, no answer, or the status of the answer.\<close>

definition triggerFleetBenchmark ::
    "(string \<Rightarrow> string \<Rightarrow> int option option) \<Rightarrow> environ \<Rightarrow> string \<Rightarrow> string \<Rightarrow> trigger_error option" where
  "triggerFleetBenchmark post env submissionID endpoint =
     (case post (bc_URL (benchmarkDefaults env)) (json_print (fleet_payload env submissionID endpoint)) of
        None \<Rightarrow> Some CreateRequest
      | Some None \<Rightarrow> Some CallFleet
      | Some (Some status) \<Rightarrow> if status \<noteq> 202 \<and> status \<noteq> 200 then Some (FleetStatus status) else None)"

section \<open>uploadHandler\<close>

record upload =
  ul_method :: string
  ul_form :: bool
  ul_value :: "string \<Rightarrow> string"
  ul_file :: "string \<Rightarrow> string option"

datatype upload_reply =
    PlainError string
  | FormError
  | TempFileError
  | StoreError
  | CloseError
  | ExecuteError exec_error
  | TriggerError trigger_error
  | Deployed string

fun upload_status :: "upload_reply \<Rightarrow> int" where
  "upload_status (PlainError msg) = (if msg = ''Method not allowed'' then 405 else 400)"
| "upload_status FormError = 400"
| "upload_status TempFileError = 500"
| "upload_status StoreError = 500"
| "upload_status CloseError = 500"
| "upload_status (ExecuteError e) = 500"
| "upload_status (TriggerError e) = 502"
| "upload_status (Deployed body) = 200"

definition deployed_json :: "string \<Rightarrow> int \<Rightarrow> json" where
  "deployed_json ip port = JObj [(''container_ip'', JStr ip), (''container_port'', JNum (int_lit port)),
     (''message'', JStr ''Container is running''), (''success'', JBool True)]"

text \<open>From the temporary file on; every return runs the deferred removal.\<close>

definition store_and_run ::
    "'d docker_api \<Rightarrow> outside \<Rightarrow> string \<Rightarrow> string \<Rightarrow> string \<Rightarrow> string \<Rightarrow> string \<Rightarrow> 'd world \<Rightarrow> 'd world \<times> upload_reply" where
  "store_and_run api os submissionID language artifactType content tmpPath w =
     (if \<not> os_copy os then (w, StoreError)
      else let w1 = w\<lparr>wd_files := AList.update tmpPath content (wd_files w)\<rparr>
           in if \<not> os_close os then (w1, CloseError)
              else let (d1, res) = executeSubmissionInternal api Request (os_env os) (os_cpus os) (os_dial os) submissionID
                         (map_of (wd_files w1) tmpPath) language artifactType (wd_engine w1);
                       w2 = w1\<lparr>wd_engine := d1\<rparr>
                   in case res of
                        Inl e \<Rightarrow> (w2, ExecuteError e)
                      | Inr (ip, port) \<Rightarrow>
                          (case triggerFleetBenchmark (os_post os) (os_env os) submissionID (endpoint_of ip port) of
                             Some e \<Rightarrow> (w2, TriggerError e)
                           | None \<Rightarrow> (w2, Deployed (json_line (deployed_json ip port)))))"

definition uploadHandler ::
    "'d docker_api \<Rightarrow> outside \<Rightarrow> upload \<Rightarrow> 'd world \<Rightarrow> 'd world \<times> upload_reply" where
  "uploadHandler api os r w =
     (if ul_method r \<noteq> ''POST'' then (w, PlainError ''Method not allowed'')
      else if \<not> ul_form r then (w, FormError)
      else let submissionID = ul_value r ''submission_id''
           in if submissionID = [] then (w, PlainError ''submission_id is required'')
              else let language = (if ul_value r ''language'' = [] then ''go'' else ul_value r ''language'');
                       artifactType = (if ul_value r ''artifact_type'' = [] then ''source'' else ul_value r ''artifact_type'')
                   in case (case ul_file r ''binary_file'' of
                              Some content \<Rightarrow> Some (''binary'', content)
                            | None \<Rightarrow> map_option (\<lambda>content. (artifactType, content)) (ul_file r ''source_file'')) of
                        None \<Rightarrow> (w, PlainError ''source_file or binary_file is required'')
                      | Some (artifactType, content) \<Rightarrow>
                          (case os_temp os (''submission-'' @ submissionID @ ''-*'') of
                             None \<Rightarrow> (w, TempFileError)
                           | Some tmpPath \<Rightarrow>
                               (let w0 = w\<lparr>wd_files := AList.update tmpPath [] (wd_files w)\<rparr>;
                                    (w1, reply) = store_and_run api os submissionID language artifactType content tmpPath w0
                                in (remove_file tmpPath w1, reply))))"

section \<open>main\<close>

record sandbox_answers =
  sa_client :: bool
  sa_ping :: bool

datatype sandbox_startup = SandboxFatal string | SandboxServing

text \<open>The checks before the servers start.\<close>

definition sandbox_main :: "'d docker_api \<Rightarrow> sandbox_answers \<Rightarrow> 'd \<Rightarrow> 'd \<times> sandbox_startup" where
  "sandbox_main api a d =
     (if \<not> sa_client a then (d, SandboxFatal ''Failed to initialize Docker client'')
      else if \<not> sa_ping a then (d, SandboxFatal ''Cannot connect to Docker daemon'')
      else let (d1, failed) = ensureSandboxNetwork api d
           in if failed then (d1, SandboxFatal ''Failed to establish isolated sandbox network'')
              else (d1, SandboxServing))"

section \<open>What a request leaves behind\<close>

definition endpoint :: "outside \<Rightarrow> string \<Rightarrow> string" where
  "endpoint os submissionID = endpoint_of (resolveTargetIP (os_env os)) (getDeterministicPort submissionID)"

text \<open>
  From \<open>d\<close> to \<open>d'\<close>: the image of the submission is built from these entries, one container of it runs, the
  only new one, and it answered on its endpoint.
\<close>

definition serving ::
    "('d \<Rightarrow> string \<Rightarrow> build_context option) \<Rightarrow> ('d \<Rightarrow> string \<Rightarrow> container option) \<Rightarrow> outside \<Rightarrow> string \<Rightarrow> build_context \<Rightarrow>
     'd \<Rightarrow> 'd \<Rightarrow> bool" where
  "serving images cont os submissionID entries d d' \<longleftrightarrow>
     images d' (tag_ref (''submission-'' @ submissionID)) = Some entries \<and>
     (\<exists>i. cont d' i = Some (running_container (os_cpus os) submissionID (getDeterministicPort submissionID)
            [''bridge'', ''iicpc-sandbox-net'']) \<and> no_new_but i cont d d') \<and>
     waitForReady (os_dial os) (endpoint os submissionID)"

text \<open>The image of a submission is the only one that differs.\<close>

definition only_its_image :: "('d \<Rightarrow> string \<Rightarrow> build_context option) \<Rightarrow> string \<Rightarrow> 'd \<Rightarrow> 'd \<Rightarrow> bool" where
  "only_its_image images submissionID d d' \<longleftrightarrow>
     (\<forall>r. r \<noteq> tag_ref (''submission-'' @ submissionID) \<longrightarrow> images d' r = images d r)"

text \<open>What an upload asks to build: a binary, or else a source in the language and of the type it names.\<close>

definition requested_entries :: "upload \<Rightarrow> build_context option" where
  "requested_entries r =
     (let value = (\<lambda>k default. if ul_value r k = [] then default else ul_value r k)
      in case (ul_file r ''binary_file'', ul_file r ''source_file'') of
           (Some content, _) \<Rightarrow> Some (build_entries (value ''language'' ''go'') ''binary'' content)
         | (None, Some content) \<Rightarrow> Some (build_entries (value ''language'' ''go'') (value ''artifact_type'' ''source'') content)
         | (None, None) \<Rightarrow> None)"

context docker_engine
begin

lemma execute_outcome:
  assumes exec: "executeSubmissionInternal api c (os_env os) (os_cpus os) (os_dial os) submissionID source language artifactType d = (d', res)"
  shows "only_its_image images submissionID d d' \<and>
    (case res of
      Inr (ip, port) \<Rightarrow> ip = resolveTargetIP (os_env os) \<and> port = getDeterministicPort submissionID \<and>
        (\<exists>code. source = Some code \<and> serving images cont os submissionID (build_entries language artifactType code) d d')
    | Inl e \<Rightarrow> left_behind api c cont d d')"
proof -
  let ?img = "submission_name submissionID" and ?port = "getDeterministicPort submissionID"
  obtain d1 err where b: "buildSubmissionImage api c source ?img language artifactType d = (d1, err)"
    by (cases "buildSubmissionImage api c source ?img language artifactType d")
  note b1 = build_outcome [OF b]
  have own: "only_its_image images submissionID d d1" using b1(2) by (simp add: only_its_image_def submission_name_def)
  obtain d2 run where r: "runSubmissionContainer api c (os_cpus os) submissionID ?img ?port d1 = (d2, run)"
    by (cases "runSubmissionContainer api c (os_cpus os) submissionID ?img ?port d1")
  note r1 = run_outcome [OF r]
  note eq = exec [unfolded executeSubmissionInternal_def Let_def b r prod.case]
  have refl: "no_new cont d d" by (simp add: no_new_def)
  have same: "left_behind api c cont d1 = left_behind api c cont d" "no_new_but i cont d1 = no_new_but i cont d" for i
    using b1(1) by (simp_all add: left_behind_def no_new_def no_new_but_def fun_eq_iff)
  consider (build) e where "err = Some e" | (run) e where "err = None" "run = Inl e"
    | (ok) i where "err = None" "run = Inr i"
    by (cases err; cases run) auto
  then show ?thesis
  proof cases
    case build
    with eq b1(1) own show ?thesis by (auto simp: left_behind_def no_new_def)
  next
    case run
    with eq r1 own same show ?thesis by (auto simp: only_its_image_def)
  next
    case (ok i)
    obtain d3 rok where rm: "ContainerRemove api c i d2 = (d3, rok)" by (cases "ContainerRemove api c i d2")
    have new: "no_new_but i cont d d2" using r1 ok same by simp
    have "left_behind api c cont d d3" by (rule remove_left_behind [OF rm new])
    moreover have "only_its_image images submissionID d d3" "only_its_image images submissionID d d2"
      using own r1 removed_below [OF rm] by (simp_all add: only_its_image_def)
    moreover have "\<exists>code. source = Some code \<and> serving images cont os submissionID (build_entries language artifactType code) d d2"
      if "waitForReady (os_dial os) (endpoint os submissionID)"
      using that r1 ok b1(3) new by (auto simp: serving_def submission_name_def)
    ultimately show ?thesis
      using eq ok rm by (auto simp: endpoint_def split: if_splits)
  qed
qed

lemma store_outcome:
  assumes "store_and_run api os submissionID language artifactType content tmpPath w = (w', reply)"
  shows "only_its_image images submissionID (wd_engine w) (wd_engine w') \<and>
   (case reply of
      Deployed body \<Rightarrow>
        serving images cont os submissionID (build_entries language artifactType content) (wd_engine w) (wd_engine w') \<and>
        triggerFleetBenchmark (os_post os) (os_env os) submissionID (endpoint os submissionID) = None \<and>
        body = json_line (deployed_json (resolveTargetIP (os_env os)) (getDeterministicPort submissionID))
    | TriggerError e \<Rightarrow>
        serving images cont os submissionID (build_entries language artifactType content) (wd_engine w) (wd_engine w') \<and>
        triggerFleetBenchmark (os_post os) (os_env os) submissionID (endpoint os submissionID) = Some e
    | ExecuteError e \<Rightarrow> left_behind api Request cont (wd_engine w) (wd_engine w')
    | _ \<Rightarrow> wd_engine w' = wd_engine w)"
proof -
  let ?src = "map_of (AList.update tmpPath content (wd_files w)) tmpPath"
  obtain d1 res where x: "executeSubmissionInternal api Request (os_env os) (os_cpus os) (os_dial os) submissionID ?src
      language artifactType (wd_engine w) = (d1, res)"
    by (cases "executeSubmissionInternal api Request (os_env os) (os_cpus os) (os_dial os) submissionID ?src
      language artifactType (wd_engine w)")
  have src: "?src = Some content" by (simp add: update_conv)
  from execute_outcome [OF x] assms x [unfolded src] src show ?thesis
    by (auto simp: store_and_run_def Let_def endpoint_def only_its_image_def split: if_splits sum.splits option.splits prod.splits)
qed

end

lemma upload_cases:
  assumes "uploadHandler api os r w = (w', reply)"
  obtains (refused) "w' = w" "reply \<in> {FormError, TempFileError} \<or> (\<exists>msg. reply = PlainError msg)"
  | (stored) language artifactType content tmpPath w1 where
      "os_temp os (''submission-'' @ ul_value r ''submission_id'' @ ''-*'') = Some tmpPath"
      "store_and_run api os (ul_value r ''submission_id'') language artifactType content tmpPath
         (w\<lparr>wd_files := AList.update tmpPath [] (wd_files w)\<rparr>) = (w1, reply)"
      "w' = remove_file tmpPath w1"
      "requested_entries r = Some (build_entries language artifactType content)"
proof -
  have "w' = w \<and> (reply \<in> {FormError, TempFileError} \<or> (\<exists>msg. reply = PlainError msg)) \<or>
    (\<exists>language artifactType content tmpPath w1.
      os_temp os (''submission-'' @ ul_value r ''submission_id'' @ ''-*'') = Some tmpPath \<and>
      store_and_run api os (ul_value r ''submission_id'') language artifactType content tmpPath
         (w\<lparr>wd_files := AList.update tmpPath [] (wd_files w)\<rparr>) = (w1, reply) \<and>
      w' = remove_file tmpPath w1 \<and>
      requested_entries r = Some (build_entries language artifactType content))"
    using assms unfolding uploadHandler_def Let_def requested_entries_def
    by (simp split: if_splits option.splits prod.splits; blast)
  with that show thesis by blast
qed

lemma delete_update: "AList.delete k (AList.update k v xs) = AList.delete k xs"
  by (induction xs) auto

lemma delete_fresh: "k \<notin> fst ` set xs \<Longrightarrow> AList.delete k xs = xs"
  by (induction xs) auto

lemma store_files:
  assumes "store_and_run api os submissionID language artifactType content p w = (w', reply)"
  shows "AList.delete p (wd_files w') = AList.delete p (wd_files w)"
  using assms
  by (auto simp: store_and_run_def Let_def delete_update split: if_splits option.splits sum.splits prod.splits)

section \<open>Properties\<close>


text \<open>
  C35 (safety). Whatever the outcome, an upload leaves no file behind: the temporary file, which
  \<open>CreateTemp\<close> makes under a new name, is removed on every return.
\<close>

theorem upload_cleans_up:
  assumes "\<And>pat p. os_temp os pat = Some p \<Longrightarrow> p \<notin> fst ` set (wd_files w)"
  shows "wd_files (fst (uploadHandler api os r w)) = wd_files w"
proof -
  obtain w' reply where u: "uploadHandler api os r w = (w', reply)" by (cases "uploadHandler api os r w")
  then show ?thesis
  proof (cases rule: upload_cases)
    case refused
    with u show ?thesis by simp
  next
    case (stored language artifactType content tmpPath w1)
    with u assms [OF stored(1)] store_files [OF stored(2)] show ?thesis
      by (simp add: remove_file_def delete_update delete_fresh)
  qed
qed


section \<open>Witnesses\<close>

definition working_outside :: outside where
  "working_outside = \<lparr>os_env = Map.empty, os_cpus = 4, os_dial = (\<lambda>_ _. (True, Suc 0)), os_temp = (\<lambda>_. Some ''/tmp/s''),
     os_copy = True, os_close = True, os_post = (\<lambda>_ _. Some (Some 202))\<rparr>"

definition sample_world :: "mem_engine world" where
  "sample_world = \<lparr>wd_engine = empty_engine, wd_files = [(''/tmp/other'', ''x'')]\<rparr>"

definition sample_upload :: upload where
  "sample_upload = \<lparr>ul_method = ''POST'', ul_form = True,
     ul_value = (\<lambda>k. if k = ''submission_id'' then ''a8'' else []),
     ul_file = (\<lambda>k. if k = ''source_file'' then Some ''package main'' else None)\<rparr>"

lemma ready_at_once [simp]: "waitForReady (\<lambda>_ _. (True, Suc 0)) e"
  by (simp add: waitForReady_def wait_from.simps)

lemma sample_execute:
  "source \<noteq> None \<Longrightarrow> \<exists>d. executeSubmissionInternal (mem_api working_faults) Request Map.empty 4 (\<lambda>_ _. (True, Suc 0)) i source language
     artifactType empty_engine = (d, Inr (resolveTargetIP Map.empty, getDeterministicPort i))"
  using read_stream [of "[StreamMsg ''ok'']" "[]" True]
  by (auto simp: executeSubmissionInternal_def buildSubmissionImage_def runSubmissionContainer_def mem_eval
      mem_remove_def mem_cont_def fresh_id_def port_taken_def on_container_def Let_def)

lemma sample_deployed:
  "snd (uploadHandler (mem_api working_faults) working_outside sample_upload sample_world) =
     Deployed (json_line (deployed_json (resolveTargetIP Map.empty) (getDeterministicPort ''a8'')))"
proof -
  obtain d where "executeSubmissionInternal (mem_api working_faults) Request Map.empty 4 (\<lambda>_ _. (True, Suc 0)) ''a8''
      (Some ''package main'') ''go'' ''source'' empty_engine = (d, Inr (resolveTargetIP Map.empty, getDeterministicPort ''a8''))"
    using sample_execute by blast
  then show ?thesis
    by (simp add: uploadHandler_def store_and_run_def sample_upload_def working_outside_def sample_world_def
        triggerFleetBenchmark_def)
qed


theorem upload_cleans_up_witness:
  "wd_files (fst (uploadHandler (mem_api working_faults) working_outside sample_upload sample_world)) =
     [(''/tmp/other'', ''x'')]"
  using upload_cleans_up [of working_outside sample_world "mem_api working_faults" sample_upload]
  by (simp add: working_outside_def sample_world_def)

definition sample_request :: execute_request where
  "sample_request = \<lparr>eq_SubmissionId = ''a8'', eq_SourceFilePath = ''/tmp/other'', eq_Language = []\<rparr>"

lemma sample_success: "ep_Success (snd (ExecuteSubmission (mem_api working_faults) working_outside sample_request sample_world))"
proof -
  obtain d where "executeSubmissionInternal (mem_api working_faults) Request Map.empty 4 (\<lambda>_ _. (True, Suc 0)) ''a8''
      (Some ''x'') ''go'' ''source'' empty_engine = (d, Inr (resolveTargetIP Map.empty, getDeterministicPort ''a8''))"
    using sample_execute by blast
  then show ?thesis
    by (simp add: ExecuteSubmission_def sample_request_def working_outside_def sample_world_def port_collision)
qed


end
