(* ===== verification/EndToEnd.thy ===== *)
theory EndToEnd
  imports JsonSize LoadTest Sandbox
begin

text \<open>
  The services together. First the fleet, the reference contestant and the telemetry service:
  every order of a run, sent to the reference engine, comes back as an event that the validator
  judges correct. Then the sandbox and the fleet: which benchmarks that an upload triggers the
  fleet accepts.
\<close>

section \<open>The orders of a run\<close>

lemma plain_nat_str [simp]: "list_all plain (nat_str n)"
  by (simp add: plain_digits)

lemma ord_id_short:
  assumes "0 \<le> i" and "i \<le> 1000000"
  shows "list_all plain (ord_id i) \<and> length (ord_id i) \<le> 11"
proof -
  have "length (nat_str (nat i)) \<le> 7" using assms by (intro nat_str_length) auto
  with assms show ?thesis by (simp add: ord_id_def itoa_def plain_def)
qed

text \<open>What is known of a generated order.\<close>

definition fleet_order :: "order \<Rightarrow> bool" where
  "fleet_order r \<longleftrightarrow>
     list_all plain (or_ID r) \<and> length (or_ID r) \<le> 11 \<and> in_int64 (or_Timestamp r) \<and>
     (if or_Type r = ''CANCEL''
      then or_Side r = [] \<and> or_Price r = 0 \<and> or_Quantity r = 0 \<and> list_all plain (or_CancelTargetID r)
      else or_Type r \<in> {''MARKET'', ''LIMIT''} \<and> or_Side r \<in> {''BUY'', ''SELL''} \<and> or_CancelTargetID r = [] \<and>
        1 \<le> or_Quantity r \<and> or_Quantity r \<le> 100 \<and> (\<exists>n. 1000 \<le> n \<and> n \<le> 50000 \<and> or_Price r = cents n))"

lemma generated_fleet_order:
  assumes "generated q r" and "run_ok q"
  shows "fleet_order r"
proof -
  from assms obtain d i where d: "draws_ok d" "1 \<le> i" "i \<le> 1000000" "r = generateOrder d i"
    by (auto simp: generated_def run_ok_def maxNumOrders_def)
  obtain n where n: "1000 \<le> n" "n \<le> 50000" "draw_price (dr_price d) = cents n"
    using draw_price_cents [of "dr_price d"] d(1) by (auto simp: draws_ok_def)
  define t where "t = (if i > 1 then dr_target d (i - 1) + 1 else 1)"
  have "0 < i - 1 \<Longrightarrow> 0 \<le> dr_target d (i - 1) \<and> dr_target d (i - 1) < i - 1"
    using d(1) by (simp add: draws_ok_def)
  with d have "0 \<le> t" "t \<le> 1000000" by (auto simp: t_def)
  with ord_id_short [of i] ord_id_short [of t] d n show ?thesis
    by (auto simp: fleet_order_def generateOrder_def order_type_def draws_ok_def Let_def t_def [symmetric])
qed

lemma cents_finite: "1000 \<le> n \<Longrightarrow> n \<le> 50000 \<Longrightarrow> f64_finite (Fin (cents n))"
  using f64_finite_f64r [of "cents n"] cents_range [of n] by (auto simp: abs_le_iff)

lemma plain_valid: "list_all plain s \<Longrightarrow> valid_utf8 s"
  by (simp add: plain_ascii ascii_valid)

lemma finite_zero [simp]: "f64_finite (Fin 0)"
  using f64_finite_int [of 0] by simp

lemma nil_valid [simp]: "valid_utf8 []"
  by (simp add: valid_utf8.simps)

lemma fleet_order_ok: "fleet_order r \<Longrightarrow> order_ok r"
  by (auto simp: fleet_order_def order_ok_def plain_valid cents_finite in_int64_def plain_def
      intro!: plain_valid split: if_splits)

section \<open>The answer of the reference engine\<close>

text \<open>The target's view of an answer.\<close>

definition target_of :: "order_response \<Rightarrow> target_response" where
  "target_of s = \<lparr>tr_OrderID = rs_OrderID s, tr_Type = rs_Type s, tr_Side = rs_Side s,
     tr_OrderedQty = rs_OrderedQty s, tr_FilledQty = rs_FilledQty s, tr_Price = rs_Price s,
     tr_ExecutionPrice = rs_ExecutionPrice s, tr_Status = rs_Status s\<rparr>"

definition answer_ok :: "order_response \<Rightarrow> bool" where
  "answer_ok s \<longleftrightarrow> in_int64 (rs_OrderedQty s) \<and> in_int64 (rs_FilledQty s) \<and>
     f64_finite (Fin (rs_Price s)) \<and> f64_finite (Fin (rs_ExecutionPrice s)) \<and>
     list_all plain (rs_OrderID s) \<and> list_all plain (rs_Type s) \<and> list_all plain (rs_Side s) \<and>
     list_all plain (rs_Status s)"

lemma answer_json_ok: "answer_ok s \<Longrightarrow> json_ok maxNestingDepth (order_response_json s)"
  by (simp add: order_response_json_def answer_ok_def maxNestingDepth_def f64_finite_fixed)

lemma decode_answer:
  assumes "answer_ok s"
  shows "decode_response (json_line (order_response_json s)) = Some (target_of s)"
proof -
  have "json_clean (order_response_json s) = order_response_json s"
    using assms by (simp add: order_response_json_def answer_ok_def plain_valid to_valid_utf8_id)
  moreover have "decode_struct response_fields (order_response_json s) zero_response = Some (target_of s)"
    using assms by (simp add: order_response_json_def answer_ok_def response_fields_def zero_response_def
        target_of_def decode_opt)
  ultimately show ?thesis
    by (simp add: decode_response_def json_parse_line [OF answer_json_ok [OF assms]])
qed

text \<open>How short it is.\<close>

definition answer_short :: "order_response \<Rightarrow> bool" where
  "answer_short s \<longleftrightarrow> answer_ok s \<and> length (rs_OrderID s) \<le> 11 \<and> length (rs_Type s) \<le> 11 \<and>
     length (rs_Side s) \<le> 11 \<and> length (rs_Status s) \<le> 11 \<and>
     0 \<le> rs_OrderedQty s \<and> rs_OrderedQty s \<le> 100 \<and> 0 \<le> rs_FilledQty s \<and> rs_FilledQty s \<le> 100 \<and>
     (rs_Price s = 0 \<or> (\<exists>n. 1000 \<le> n \<and> n \<le> 50000 \<and> rs_Price s = cents n)) \<and>
     (rs_ExecutionPrice s = 0 \<or> (\<exists>n. 1000 \<le> n \<and> n \<le> 50000 \<and> rs_ExecutionPrice s = cents n))"

lemma short_opt_str:
  "list_all plain n \<Longrightarrow> length n \<le> 20 \<Longrightarrow> list_all plain s \<Longrightarrow> length s \<le> 11 \<Longrightarrow>
   list_all (short_member 13) (opt_str n s)"
  using short_str [of s 11] by (simp add: opt_str_def short_member_def)

lemma short_opt_int:
  assumes "list_all plain n" and "length n \<le> 20" and "0 \<le> i" and "i \<le> 100"
  shows "list_all (short_member 13) (opt_int n i)"
proof -
  have "length (nat_str (nat \<bar>i\<bar>)) \<le> 3" using assms by (intro nat_str_length) auto
  with assms have "length (numlit_str (int_lit i)) \<le> 13" by (simp add: int_lit_def numlit_str_def)
  with assms short_num [of "int_lit i" 13] show ?thesis by (simp add: opt_int_def short_member_def)
qed

lemma short_opt_float:
  assumes "list_all plain n" and "length n \<le> 20" and "x = 0 \<or> (\<exists>k. 1000 \<le> k \<and> k \<le> 50000 \<and> x = cents k)"
  shows "list_all (short_member 13) (opt_float n x)"
proof (cases "x = 0")
  case False
  then obtain k where k: "1000 \<le> k" "k \<le> 50000" "x = cents k" using assms(3) by blast
  have "length (numlit_str (float_lit x)) \<le> 13" using price_literal_short [OF k(1,2)] k(3) by simp
  then have "short 13 (json_print (JNum (float_lit x)))"
    by (intro short_num numlit_ok_float) (simp add: k(3))
  with assms show ?thesis by (simp add: opt_float_def short_member_def)
qed (simp add: opt_float_def)

lemma opt_length:
  "length (opt_str n s) \<le> 1" "length (opt_int n i) \<le> 1" "length (opt_float n x) \<le> 1"
  by (simp_all add: opt_str_def opt_int_def opt_float_def)

lemma answer_fits:
  assumes "answer_short s"
  shows "short 2048 (json_line (order_response_json s))"
proof -
  let ?ms = "[(''order_id'', JStr (rs_OrderID s)), (''type'', JStr (rs_Type s))] @
      opt_str ''side'' (rs_Side s) @ opt_int ''ordered_qty'' (rs_OrderedQty s) @
      opt_int ''filled_qty'' (rs_FilledQty s) @ opt_float ''price'' (rs_Price s) @
      opt_float ''execution_price'' (rs_ExecutionPrice s) @ opt_str ''status'' (rs_Status s)"
  have names: "list_all plain ''order_id''" "list_all plain ''type''" "list_all plain ''side''"
    "list_all plain ''ordered_qty''" "list_all plain ''filled_qty''" "list_all plain ''price''"
    "list_all plain ''execution_price''" "list_all plain ''status''"
    by (simp_all add: plain_def)
  have strs: "short 13 (json_print (JStr (rs_OrderID s)))" "short 13 (json_print (JStr (rs_Type s)))"
    using assms short_str [of _ 11] by (auto simp: answer_short_def answer_ok_def)
  have "list_all (short_member 13) ?ms"
    using assms names strs unfolding list_all_append
    by (intro conjI short_opt_str short_opt_int short_opt_float)
      (simp_all add: answer_short_def answer_ok_def short_member_def)
  from short_object [OF this] have o: "short (length ?ms * 37 + 2) (json_print (JObj ?ms))" by simp
  have "length ?ms \<le> 8"
    using opt_length(1) [of "''side''" "rs_Side s"] opt_length(1) [of "''status''" "rs_Status s"]
      opt_length(2) [of "''ordered_qty''" "rs_OrderedQty s"] opt_length(2) [of "''filled_qty''" "rs_FilledQty s"]
      opt_length(3) [of "''price''" "rs_Price s"] opt_length(3) [of "''execution_price''" "rs_ExecutionPrice s"]
    unfolding length_append list.size by linarith
  with o have "short 2047 (json_print (order_response_json s))"
    unfolding order_response_json_def by (elim short_mono) simp
  from short_append [OF this, of 1 "[CHR 10]"] show ?thesis
    by (simp add: json_line_def short_def ascii_def)
qed

text \<open>What the reference engine answers to an order.\<close>

definition engine_answer :: "order \<Rightarrow> order_response" where
  "engine_answer r =
     (if or_Type r = ''CANCEL''
      then \<lparr>rs_OrderID = or_ID r, rs_Type = ''CANCEL'', rs_Side = [], rs_OrderedQty = 0, rs_FilledQty = 0,
        rs_Price = 0, rs_ExecutionPrice = 0, rs_Status = ''cancelled''\<rparr>
      else \<lparr>rs_OrderID = or_ID r, rs_Type = or_Type r, rs_Side = or_Side r, rs_OrderedQty = or_Quantity r,
        rs_FilledQty = or_Quantity r, rs_Price = or_Price r,
        rs_ExecutionPrice = (if or_Type r = ''MARKET'' then 100 else or_Price r), rs_Status = []\<rparr>)"

definition order_request_http :: "order \<Rightarrow> http_request" where
  "order_request_http r = \<lparr>hr_Method = ''POST'', hr_Body = encode_order r\<rparr>"

lemma request_decodes: "fleet_order r \<Longrightarrow> decode_request (encode_order r) = Some (request_of r)"
  by (rule decode_encoded_order) (rule fleet_order_ok)

lemma engine_answers:
  assumes "fleet_order r"
  shows "snd (contestant_serve e (order_path r) (order_request_http r)) =
    \<lparr>hw_Status = 200, hw_Body = json_line (order_response_json (engine_answer r))\<rparr>"
  by (simp add: contestant_serve_def order_path_def order_request_http_def HandleOrder_def HandleCancel_def
      request_decodes [OF assms] engine_answer_def request_of_def Let_def)

lemma cents_100: "cents 10000 = 100"
  using b64.rd_int [of 100] by (simp add: cents_def)

lemma engine_answer_short:
  assumes "fleet_order r"
  shows "answer_short (engine_answer r)"
proof (cases "or_Type r = ''CANCEL''")
  case True
  with assms show ?thesis
    by (simp add: answer_short_def answer_ok_def engine_answer_def fleet_order_def in_int64_def plain_def)
next
  case False
  then obtain n where n: "1000 \<le> n" "n \<le> 50000" "or_Price r = cents n"
    using assms by (auto simp: fleet_order_def)
  have hundred: "f64_finite (Fin 100)" "\<exists>k. 1000 \<le> k \<and> k \<le> 50000 \<and> 100 = cents k"
    using cents_finite [of 10000] cents_100 by (auto intro!: exI [of _ 10000])
  from assms False n cents_finite [OF n(1,2)] hundred show ?thesis
    by (auto simp: answer_short_def answer_ok_def engine_answer_def fleet_order_def in_int64_def plain_def)
qed

section \<open>From the order to the verdict\<close>

text \<open>
  One order against the reference engine in state \<open>e\<close>: the event the telemetry service reads. The
  exchange holds the clocks; its reply is the engine's.
\<close>

definition reference_event :: "string \<Rightarrow> string \<Rightarrow> trading_engine \<Rightarrow> order \<Rightarrow> exchange \<Rightarrow> order_event option" where
  "reference_event runID submissionID e r ex =
     (let resp = snd (contestant_serve e (order_path r) (order_request_http r))
      in case worker_event runID submissionID r (ex\<lparr>ex_reply := Some (hw_Status resp, hw_Body resp)\<rparr>) of
           None \<Rightarrow> None
         | Some ev \<Rightarrow> decode_event (encode_event ev))"

lemma answer_correct:
  assumes "fleet_order r"
  shows "check_fill (target_of (engine_answer r)) = None \<or> or_Type r = ''CANCEL''"
  using assms by (auto simp: check_fill_def target_of_def engine_answer_def fleet_order_def split: if_splits)

lemma reference_judged:
  assumes r: "fleet_order r" and ex: "ex_url ex" "exchange_ok ex"
  shows "\<exists>ev. reference_event runID submissionID e r ex = Some ev \<and>
    ValidateOrder NewOrderBook ev = (NewOrderBook, Correct)"
proof -
  let ?s = "engine_answer r"
  let ?body = "json_line (order_response_json ?s)"
  let ?ex = "ex\<lparr>ex_reply := Some (200, ?body)\<rparr>"
  let ?ev = "make_event runID submissionID r ?ex 200 True ?body"
  have short: "ascii ?body" "length ?body \<le> 2048"
    using answer_fits [OF engine_answer_short [OF r]] by (simp_all add: short_def)
  have "event_ok ?ev"
    using ex(2) milliseconds_ok [of "ex_elapsed ex"] r
    by (auto simp: event_ok_def make_event_def exchange_ok_def fleet_order_def in_int64_def [of 200])
  then have d: "decode_event (encode_event ?ev) = Some (clean_event ?ev)" by (rule decode_encode_event)
  have w: "worker_event runID submissionID r ?ex = Some ?ev"
    using ex short by (simp add: worker_event_def bodyLimit_def make_event_def)
  have "answer_ok ?s" using engine_answer_short [OF r] by (simp add: answer_short_def)
  then have resp: "decode_response ?body = Some (target_of ?s)" by (rule decode_answer)
  have names: "ascii (or_ID r)" using r by (simp add: fleet_order_def plain_ascii)
  have types: "ascii (or_Type r)" using r by (auto simp: fleet_order_def ascii_def split: if_splits)
  have "ValidateOrder NewOrderBook (clean_event ?ev) = validate_response NewOrderBook (clean_event ?ev) (target_of ?s)"
    using short resp by (simp add: ValidateOrder_def clean_event_def make_event_def)
  also have "\<dots> = (NewOrderBook, Correct)"
    using answer_correct [OF r] names types r
    by (auto simp: validate_response_def clean_event_def make_event_def target_of_def engine_answer_def
        remove_order_def NewOrderBook_def validate_fill_def validatePriceTimePriority_def betterAsks_def
        betterBids_def settle_def fleet_order_def Let_def)
  finally show ?thesis
    using d w by (simp add: reference_event_def engine_answers [OF r])
qed

text \<open>
  C4 (functional). The reference contestant is always judged correct: whatever orders a run
  generates, whatever the engine's state when each arrives, and however often and in whatever order
  their events are delivered, every event decodes and is judged correct, and the book stays empty.
\<close>

theorem reference_engine_correct:
  assumes "run_ok q" and "\<forall>(e, r, ex) \<in> set work. generated q r \<and> ex_url ex \<and> exchange_ok ex"
  shows "\<exists>evs. map (\<lambda>(e, r, ex). reference_event (rn_RunID q) (rn_SubmissionID q) e r ex) work = map Some evs \<and>
    validate_all NewOrderBook evs = (NewOrderBook, replicate (length work) Correct)"
  using assms(2)
proof (induction work)
  case Nil
  then show ?case by simp
next
  case (Cons w work)
  obtain e r ex where w: "w = (e, r, ex)" by (cases w)
  obtain evs where evs: "map (\<lambda>(e, r, ex). reference_event (rn_RunID q) (rn_SubmissionID q) e r ex) work = map Some evs"
    "validate_all NewOrderBook evs = (NewOrderBook, replicate (length work) Correct)"
    using Cons by auto
  have "fleet_order r" using Cons.prems w generated_fleet_order [OF _ assms(1)] by simp
  then obtain ev where "reference_event (rn_RunID q) (rn_SubmissionID q) e r ex = Some ev"
    "ValidateOrder NewOrderBook ev = (NewOrderBook, Correct)"
    using reference_judged Cons.prems w by fastforce
  with evs w show ?case by (intro exI [of _ "ev # evs"]) simp
qed

theorem reference_engine_correct_witness:
  "\<exists>evs. map (\<lambda>(e, r, ex). reference_event ''S-42'' ''S'' e r ex)
      [(NewTradingEngine, the_order, sample_exchange), (NewTradingEngine, the_order, sample_exchange)] = map Some evs \<and>
    validate_all NewOrderBook evs = (NewOrderBook, [Correct, Correct])"
proof -
  have "exchange_ok sample_exchange" "ex_url sample_exchange"
    by (simp_all add: exchange_ok_def sample_exchange_def in_int64_def)
  moreover have "generated (small_run []) the_order"
    unfolding generated_def by (intro exI [of _ some_draws] exI [of _ 1]) (simp add: the_order_def small_run_def)
  moreover have "rn_RunID (small_run []) = ''S-42''" "rn_SubmissionID (small_run []) = ''S''"
    by (simp_all add: small_run_def)
  ultimately show ?thesis
    using reference_engine_correct [of "small_run []"
        "[(NewTradingEngine, the_order, sample_exchange), (NewTradingEngine, the_order, sample_exchange)]"]
    by (simp add: numeral_2_eq_2)
qed

section \<open>From the upload to the run\<close>

definition fleet_post :: "int \<Rightarrow> string \<Rightarrow> string \<Rightarrow> int option option" where
  "fleet_post now url body =
     Some (Some (hw_Status (fst (runHandler now \<lparr>hr_Method = ''POST'', hr_Body = body\<rparr>))))"

text \<open>The configured sizes are within the limits of the fleet.\<close>

definition sizes_fit :: "environ \<Rightarrow> bool" where
  "sizes_fit env \<longleftrightarrow> bc_NumBots (benchmarkDefaults env) \<le> maxNumBots \<and>
     bc_NumOrders (benchmarkDefaults env) \<le> maxNumOrders \<and> bc_TPS (benchmarkDefaults env) \<le> maxTPS"

definition payload_request :: "environ \<Rightarrow> string \<Rightarrow> string \<Rightarrow> run_request" where
  "payload_request env submissionID ep =
     \<lparr>rn_RunID = [], rn_Endpoint = to_valid_utf8 ep, rn_SubmissionID = to_valid_utf8 submissionID,
      rn_NumBots = bc_NumBots (benchmarkDefaults env), rn_NumOrders = bc_NumOrders (benchmarkDefaults env),
      rn_TPS = bc_TPS (benchmarkDefaults env), rn_Protocol = []\<rparr>"

lemma decode_payload:
  "decode_run (json_print (fleet_payload env submissionID ep)) = Some (payload_request env submissionID ep)"
proof -
  let ?j = "fleet_payload env submissionID ep"
  have "json_ok maxNestingDepth ?j" by (simp add: fleet_payload_def Let_def maxNestingDepth_def)
  moreover have "decode_struct run_fields (json_clean ?j) zero_run = Some (payload_request env submissionID ep)"
    using benchmarkDefaults_sane [of env]
    by (simp add: fleet_payload_def payload_request_def run_fields_def zero_run_def Let_def)
  ultimately show ?thesis by (simp add: decode_run_def json_roundtrip(2))
qed

text \<open>
  C16 (equivalence). The benchmark request of the sandbox and the fleet's handler agree: an upload's
  benchmark is accepted exactly when the configured sizes are within the fleet's limits, and then
  the run has the sandbox's sizes, endpoint and submission and a fresh run id.
\<close>

theorem upload_starts_run:
  assumes "submissionID \<noteq> []" and "ep \<noteq> []"
  shows "triggerFleetBenchmark (fleet_post now) env submissionID ep =
      (if sizes_fit env then None else Some (FleetStatus 400)) \<and>
    snd (runHandler now \<lparr>hr_Method = ''POST'', hr_Body = json_print (fleet_payload env submissionID ep)\<rparr>) =
      (if sizes_fit env
       then Some ((payload_request env submissionID ep)\<lparr>rn_RunID := to_valid_utf8 submissionID @ ''-'' @ itoa now\<rparr>)
       else None)"
  using assms benchmarkDefaults_sane [of env]
  by (auto simp: triggerFleetBenchmark_def fleet_post_def runHandler_def decode_payload sizes_fit_def
      payload_request_def to_valid_utf8_nonempty Let_def)

lemma default_sizes_fit: "sizes_fit Map.empty"
  by (simp add: sizes_fit_def benchmarkDefaults_def getEnvIntOrDefault_def getenv_def
      maxNumBots_def maxNumOrders_def maxTPS_def)

theorem upload_starts_run_witness:
  "triggerFleetBenchmark (fleet_post 7) Map.empty ''a8'' ''127.0.0.1:30044'' = None"
  using upload_starts_run [of "''a8''" "''127.0.0.1:30044''" 7 Map.empty] default_sizes_fit by simp

end
