(* ===== verification/Telemetry.thy ===== *)
theory Telemetry
  imports Validator
begin

text \<open>
  \<open>cmd/telemetry/main.go\<close> and the flush of \<open>cmd/telemetry/db.go\<close>: the loop that fetches Kafka
  messages, judges them, batches the results and flushes them to the table \<open>order_metrics\<close>
  before the Kafka offsets are committed. PostgreSQL (through lib/pq) and the Kafka reader are
  outside the repository: how each of their calls ends is an input (\<open>db_env\<close>, \<open>kafka_env\<close>).
  The contract of a flush is the locale \<open>batch_store\<close>, interpreted on \<open>flushBatchToDB\<close>.
\<close>

section \<open>Rows and messages\<close>

record validated_order =
  vo_Event :: order_event
  vo_IsCorrect :: bool

record db_row =
  row_time :: int
  row_run_id :: string
  row_order_id :: string
  row_submission_id :: string
  row_latency_ms :: int
  row_is_successful :: bool
  row_is_correct :: bool

text \<open>The arguments of \<open>stmt.Exec\<close>; the timestamp is kept in nanoseconds (\<open>time.Unix(0, SentAt)\<close>).\<close>

definition row_of :: "validated_order \<Rightarrow> db_row" where
  "row_of vo = \<lparr>row_time = ev_SentAt (vo_Event vo),
     row_run_id = ev_RunID (vo_Event vo),
     row_order_id = ev_OrderID (vo_Event vo),
     row_submission_id = ev_SubmissionID (vo_Event vo),
     row_latency_ms = ev_LatencyMs (vo_Event vo),
     row_is_successful = ev_IsSuccessful (vo_Event vo),
     row_is_correct = vo_IsCorrect vo\<rparr>"

record message =
  msg_Partition :: nat
  msg_Offset :: nat
  msg_Value :: string

section \<open>The contract of a batch flush\<close>

text \<open>
  \<open>flush env t b\<close> is the table after the call and the error returned, if any. A flush is
  all or nothing; no error means all.
\<close>

locale batch_store =
  fixes flush :: "'env \<Rightarrow> 'row list \<Rightarrow> 'b list \<Rightarrow> 'row list \<times> 'err option"
    and row :: "'b \<Rightarrow> 'row"
  assumes flush_atomic: "fst (flush env t b) = t \<or> fst (flush env t b) = t @ map row b"
    and flush_success: "snd (flush env t b) = None \<Longrightarrow> fst (flush env t b) = t @ map row b"
begin

lemma flush_keeps: "r \<in> set t \<Longrightarrow> r \<in> set (fst (flush env t b))"
  using flush_atomic [of env t b] by auto

lemma flush_origin: "r \<in> set (fst (flush env t b)) \<Longrightarrow> r \<in> set t \<or> r \<in> row ` set b"
  using flush_atomic [of env t b] by auto

lemma flush_stored: "snd (flush env t b) = None \<Longrightarrow> x \<in> set b \<Longrightarrow> row x \<in> set (fst (flush env t b))"
  using flush_success [of env t b] by auto

lemma flush_all_rows:
  "(\<And>r. r \<in> set t \<Longrightarrow> P r) \<Longrightarrow> (\<And>x. x \<in> set b \<Longrightarrow> P (row x)) \<Longrightarrow>
   r \<in> set (fst (flush env t b)) \<Longrightarrow> P r"
  using flush_origin by blast

end

section \<open>flushBatchToDB\<close>

datatype commit_outcome = Committed | CommitRefused | CommitUnacknowledged

text \<open>
  How lib/pq answers one flush: each call succeeds or not; a commit that reports an error may
  still have been applied by the server (\<open>CommitUnacknowledged\<close>).
\<close>

record db_env =
  db_begin :: bool
  db_prepare :: bool
  db_exec :: "nat \<Rightarrow> bool"
  db_copy_end :: bool
  db_close :: bool
  db_commit :: commit_outcome

datatype flush_error =
    BeginTransaction
  | PrepareStatement
  | ExecRow string
  | FlushCopy
  | CloseCopyStatement
  | CommitTransaction

text \<open>The loop over the batch: the rows staged in the transaction, or the row that failed.\<close>

fun copy_rows :: "(nat \<Rightarrow> bool) \<Rightarrow> nat \<Rightarrow> validated_order list \<Rightarrow> flush_error + db_row list" where
  "copy_rows ok i [] = Inr []"
| "copy_rows ok i (x # xs) =
     (if ok i then
        (case copy_rows ok (Suc i) xs of Inl e \<Rightarrow> Inl e | Inr rs \<Rightarrow> Inr (row_of x # rs))
      else Inl (ExecRow (ev_OrderID (vo_Event x))))"

text \<open>Every error return runs the deferred rollback, so the table keeps its rows.\<close>

definition flushBatchToDB ::
    "db_env \<Rightarrow> db_row list \<Rightarrow> validated_order list \<Rightarrow> db_row list \<times> flush_error option" where
  "flushBatchToDB env table batch =
     (if length batch = 0 then (table, None)
      else if \<not> db_begin env then (table, Some BeginTransaction)
      else if \<not> db_prepare env then (table, Some PrepareStatement)
      else case copy_rows (db_exec env) 0 batch of
             Inl e \<Rightarrow> (table, Some e)
           | Inr staged \<Rightarrow>
               if \<not> db_copy_end env then (table, Some FlushCopy)
               else if \<not> db_close env then (table, Some CloseCopyStatement)
               else case db_commit env of
                      Committed \<Rightarrow> (table @ staged, None)
                    | CommitRefused \<Rightarrow> (table, Some CommitTransaction)
                    | CommitUnacknowledged \<Rightarrow> (table @ staged, Some CommitTransaction))"

lemma copy_rows_Inr: "copy_rows ok i xs = Inr rs \<Longrightarrow> rs = map row_of xs"
  by (induction xs arbitrary: i rs) (auto split: if_splits sum.splits)

lemma copy_rows_all: "(\<And>i. ok i) \<Longrightarrow> copy_rows ok i xs = Inr (map row_of xs)"
  by (induction xs arbitrary: i) auto

interpretation db: batch_store flushBatchToDB row_of
proof
  fix env t b
  show "fst (flushBatchToDB env t b) = t \<or> fst (flushBatchToDB env t b) = t @ map row_of b"
    by (auto simp: flushBatchToDB_def split: sum.split commit_outcome.split dest!: copy_rows_Inr)
  show "snd (flushBatchToDB env t b) = None \<Longrightarrow> fst (flushBatchToDB env t b) = t @ map row_of b"
    by (auto simp: flushBatchToDB_def split: if_splits sum.splits commit_outcome.splits
        dest!: copy_rows_Inr)
qed

section \<open>The consumer loop\<close>

text \<open>How \<open>CommitMessages\<close> ends: acknowledged, or an error after committing some messages.\<close>

record kafka_env =
  kc_ok :: bool
  kc_applied :: "message \<Rightarrow> bool"

record telemetry =
  tl_book :: order_book
  tl_batch :: "validated_order list"
  tl_pending :: "message list"
  tl_rows :: "db_row list"
  tl_committed :: "message list"

definition telemetry_start :: "db_row list \<Rightarrow> telemetry" where
  "telemetry_start rows = \<lparr>tl_book = NewOrderBook, tl_batch = [], tl_pending = [], tl_rows = rows,
     tl_committed = []\<rparr>"

definition flush :: "db_env \<Rightarrow> kafka_env \<Rightarrow> telemetry \<Rightarrow> telemetry" where
  "flush db kc s =
     (if length (tl_batch s) = 0 then s
      else let (rows, err) = flushBatchToDB db (tl_rows s) (tl_batch s); s1 = s\<lparr>tl_rows := rows\<rparr>
           in case err of
                Some _ \<Rightarrow> s1
              | None \<Rightarrow>
                  if kc_ok kc
                  then s1\<lparr>tl_committed := tl_committed s1 @ tl_pending s1, tl_batch := [], tl_pending := []\<rparr>
                  else s1\<lparr>tl_committed := tl_committed s1 @ filter (kc_applied kc) (tl_pending s1)\<rparr>)"

definition batchLimit :: nat where
  "batchLimit = 1000"

text \<open>One pass of the \<open>select\<close>: the ticker fired, the fetch failed or timed out, or a message came.\<close>

datatype event = Tick db_env kafka_env | FetchFailed | Fetched message db_env kafka_env

definition consume :: "message \<Rightarrow> telemetry \<Rightarrow> telemetry option" where
  "consume m s =
     (case decode_event (msg_Value m) of
        None \<Rightarrow> None
      | Some ev \<Rightarrow>
          (let (book, v) = ValidateOrder (tl_book s) ev
           in Some (s\<lparr>tl_book := book,
                     tl_batch := tl_batch s @ [\<lparr>vo_Event = ev, vo_IsCorrect = is_correct v\<rparr>],
                     tl_pending := tl_pending s @ [m]\<rparr>)))"

fun telemetry_step :: "telemetry \<Rightarrow> event \<Rightarrow> telemetry" where
  "telemetry_step s (Tick db kc) = flush db kc s"
| "telemetry_step s FetchFailed = s"
| "telemetry_step s (Fetched m db kc) =
     (case consume m s of
        None \<Rightarrow> s
      | Some s1 \<Rightarrow> if length (tl_batch s1) \<ge> batchLimit then flush db kc s1 else s1)"

fun telemetry_run :: "telemetry \<Rightarrow> event list \<Rightarrow> telemetry" where
  "telemetry_run s [] = s"
| "telemetry_run s (e # es) = telemetry_run (telemetry_step s e) es"

lemma telemetry_run_append: "telemetry_run s (xs @ ys) = telemetry_run (telemetry_run s xs) ys"
  by (induction xs arbitrary: s) auto

section \<open>The invariant of the loop\<close>

text \<open>The message carries this event.\<close>

definition carries :: "message \<Rightarrow> validated_order \<Rightarrow> bool" where
  "carries m vo \<longleftrightarrow> decode_event (msg_Value m) = Some (vo_Event vo)"

definition sound_order :: "validated_order \<Rightarrow> bool" where
  "sound_order vo \<longleftrightarrow> (vo_IsCorrect vo \<longrightarrow> ev_IsSuccessful (vo_Event vo))"

definition sound_row :: "db_row \<Rightarrow> bool" where
  "sound_row r \<longleftrightarrow> (row_is_correct r \<longrightarrow> row_is_successful r)"

definition stored :: "db_row list \<Rightarrow> message \<Rightarrow> bool" where
  "stored rows m \<longleftrightarrow> (\<exists>vo. carries m vo \<and> row_of vo \<in> set rows)"

definition telemetry_inv :: "telemetry \<Rightarrow> bool" where
  "telemetry_inv s \<longleftrightarrow>
     list_all2 carries (tl_pending s) (tl_batch s) \<and>
     list_all sound_order (tl_batch s) \<and>
     list_all sound_row (tl_rows s) \<and>
     list_all (stored (tl_rows s)) (tl_committed s)"

lemma sound_row_of [simp]: "sound_row (row_of vo) = sound_order vo"
  by (simp add: sound_row_def row_of_def sound_order_def)

lemma stored_mono: "stored t m \<Longrightarrow> set t \<subseteq> set t' \<Longrightarrow> stored t' m"
  by (auto simp: stored_def)

lemma carries_stored:
  "list_all2 carries ms vos \<Longrightarrow> m \<in> set ms \<Longrightarrow> row_of ` set vos \<subseteq> set t \<Longrightarrow> stored t m"
  unfolding stored_def by (fastforce simp: list_all2_conv_all_nth in_set_conv_nth)

lemma flush_cases:
  obtains "flush db kc s = s"
  | t where "flush db kc s = s\<lparr>tl_rows := t\<rparr>" "t = tl_rows s \<or> t = tl_rows s @ map row_of (tl_batch s)"
  | ms where "flush db kc s = s\<lparr>tl_rows := tl_rows s @ map row_of (tl_batch s),
      tl_committed := tl_committed s @ ms\<rparr>" "set ms \<subseteq> set (tl_pending s)"
  | "flush db kc s = s\<lparr>tl_rows := tl_rows s @ map row_of (tl_batch s),
      tl_committed := tl_committed s @ tl_pending s, tl_batch := [], tl_pending := []\<rparr>"
proof (cases "length (tl_batch s) = 0")
  case True
  then show ?thesis by (intro that(1)) (simp add: flush_def)
next
  case False
  obtain t err where f: "flushBatchToDB db (tl_rows s) (tl_batch s) = (t, err)"
    by (cases "flushBatchToDB db (tl_rows s) (tl_batch s)")
  show ?thesis
  proof (cases err)
    case (Some e)
    have "t = tl_rows s \<or> t = tl_rows s @ map row_of (tl_batch s)"
      using db.flush_atomic [of db "tl_rows s" "tl_batch s"] f by simp
    with f False Some show ?thesis by (intro that(2)) (simp add: flush_def)
  next
    case None
    then have t: "t = tl_rows s @ map row_of (tl_batch s)"
      using db.flush_success [of db "tl_rows s" "tl_batch s"] f by simp
    show ?thesis
    proof (cases "kc_ok kc")
      case True
      with f False None t show ?thesis by (intro that(4)) (simp add: flush_def)
    next
      case False
      with f None t \<open>length (tl_batch s) \<noteq> 0\<close> show ?thesis
        by (intro that(3) [of "filter (kc_applied kc) (tl_pending s)"]) (auto simp: flush_def)
    qed
  qed
qed

lemma flush_inv [inv_intros]:
  assumes inv: "telemetry_inv s"
  shows "telemetry_inv (flush db kc s)"
proof -
  have rows: "list_all sound_row (tl_rows s @ map row_of (tl_batch s))"
    using inv by (auto simp: telemetry_inv_def list_all_iff)
  have old: "list_all (stored (tl_rows s @ map row_of (tl_batch s))) (tl_committed s)"
    using inv unfolding telemetry_inv_def by (auto simp: list_all_iff intro: stored_mono)
  have new: "list_all (stored (tl_rows s @ map row_of (tl_batch s))) ms"
    if "set ms \<subseteq> set (tl_pending s)" for ms
    using inv that unfolding telemetry_inv_def
    by (auto simp: list_all_iff intro!: carries_stored [where ms = "tl_pending s"])
  show ?thesis
    by (rule flush_cases [of db kc s])
      (use inv rows old new in \<open>auto simp: telemetry_inv_def\<close>)
qed

lemma correct_is_successful: "ValidateOrder ob ev = (b, v) \<Longrightarrow> is_correct v \<Longrightarrow> ev_IsSuccessful ev"
  by (auto simp: ValidateOrder_def is_correct_def split: if_splits)

lemma consume_inv [inv_intros]: "telemetry_inv s \<Longrightarrow> consume m s = Some s1 \<Longrightarrow> telemetry_inv s1"
  by (auto simp: consume_def telemetry_inv_def carries_def sound_order_def list_all2_appendI
      split: option.splits prod.splits dest: correct_is_successful)

lemma telemetry_step_inv [inv_intros]: "telemetry_inv s \<Longrightarrow> telemetry_inv (telemetry_step s e)"
  by (cases e) (auto intro: inv_intros split: option.split)

lemma telemetry_run_inv [inv_intros]: "telemetry_inv s \<Longrightarrow> telemetry_inv (telemetry_run s es)"
  by (induction es arbitrary: s) (auto intro: inv_intros)

lemma telemetry_start_inv [inv_intros]: "list_all sound_row rows \<Longrightarrow> telemetry_inv (telemetry_start rows)"
  by (simp add: telemetry_inv_def telemetry_start_def)

end
