(* ===== verification/Scoring.thy ===== *)
theory Scoring
  imports Telemetry FloatLit
begin

text \<open>
  \<open>cmd/leaderboard/scoring.go\<close>: the scoring query over \<open>order_metrics\<close> (windowed, grouped by
  run and submission, aggregated), the statistics computed from each of its rows in \<open>float64\<close>,
  the ranked board and its JSON. Of PostgreSQL the documented meaning of the SQL used is modelled;
  how its \<open>numeric\<close> division rounds is the parameter \<open>pgnum\<close>.
\<close>

section \<open>percentile\_cont\<close>

text \<open>
  \<open>percentile_cont(p) WITHIN GROUP (ORDER BY x)\<close>: double precision interpolation at position
  \<open>p * (n - 1)\<close> of the sorted values that are not NULL; NULL when there are none.
\<close>

definition percentile_pos :: "rat \<Rightarrow> nat \<Rightarrow> rat" where
  "percentile_pos p n = f64r (f64r p * f64r (of_nat (n - 1)))"

definition lerp :: "rat \<Rightarrow> rat \<Rightarrow> rat \<Rightarrow> rat" where
  "lerp a b t = f64r (a + f64r (t * f64r (b - a)))"

definition percentile_cont :: "rat \<Rightarrow> int list \<Rightarrow> rat option" where
  "percentile_cont p xs =
     (if xs = [] then None
      else let vs = sort xs; pos = percentile_pos p (length vs);
               lo = vs ! nat \<lfloor>pos\<rfloor>; hi = vs ! nat \<lceil>pos\<rceil>
           in Some (if \<lfloor>pos\<rfloor> = \<lceil>pos\<rceil> then f64r (of_int lo)
                    else lerp (f64r (of_int lo)) (f64r (of_int hi)) (f64r (pos - of_int \<lfloor>pos\<rfloor>))))"

definition coalesce :: "'a option \<Rightarrow> 'a \<Rightarrow> 'a" where
  "coalesce x d = (case x of None \<Rightarrow> d | Some v \<Rightarrow> v)"

section \<open>The query\<close>

text \<open>A \<open>TIMESTAMPTZ\<close> keeps microseconds.\<close>

definition row_micros :: "db_row \<Rightarrow> int" where
  "row_micros r = rne (of_int (row_time r) / 1000)"

definition windowed :: "int \<Rightarrow> db_row list \<Rightarrow> db_row list" where
  "windowed now rows = filter (\<lambda>r. row_micros r > now - 15 * 60 * 10 ^ 6) rows"

type_synonym group_key = "string \<times> string"

definition row_key :: "db_row \<Rightarrow> group_key" where
  "row_key r = (row_run_id r, row_submission_id r)"

definition count_where :: "('a \<Rightarrow> bool) \<Rightarrow> 'a list \<Rightarrow> nat" where
  "count_where P xs = length (filter P xs)"

definition good_row :: "db_row \<Rightarrow> bool" where
  "good_row r \<longleftrightarrow> row_is_successful r \<and> row_is_correct r"

definition good_latencies :: "db_row list \<Rightarrow> int list" where
  "good_latencies g = map row_latency_ms (filter good_row g)"

text \<open>\<open>EXTRACT(EPOCH FROM (MAX(time) - MIN(time)))\<close>, in seconds.\<close>

definition epoch_span :: "db_row list \<Rightarrow> rat" where
  "epoch_span g = of_int (Max (row_micros ` set g) - Min (row_micros ` set g)) / 10 ^ 6"

definition nullif0 :: "rat \<Rightarrow> rat option" where
  "nullif0 x = (if x = 0 then None else Some x)"

record aggregate =
  ag_run_id :: string
  ag_submission_id :: string
  ag_tps :: rat
  ag_p50 :: rat
  ag_p90 :: rat
  ag_p99 :: rat
  ag_total :: nat
  ag_success :: nat
  ag_correct :: nat

definition aggregate_of :: "(rat \<Rightarrow> rat) \<Rightarrow> group_key \<Rightarrow> db_row list \<Rightarrow> aggregate" where
  "aggregate_of pgnum k g =
     \<lparr>ag_run_id = fst k, ag_submission_id = snd k,
      ag_tps = coalesce (map_option (\<lambda>span. pgnum (of_nat (count_where good_row g) / span))
                           (nullif0 (epoch_span g))) 0,
      ag_p50 = coalesce (percentile_cont (50 / 100) (good_latencies g)) 0,
      ag_p90 = coalesce (percentile_cont (90 / 100) (good_latencies g)) 0,
      ag_p99 = coalesce (percentile_cont (99 / 100) (good_latencies g)) 0,
      ag_total = length g,
      ag_success = count_where row_is_successful g,
      ag_correct = count_where row_is_correct g\<rparr>"

text \<open>The groups come in one of the orders PostgreSQL may return them in.\<close>

definition scoring_query :: "(rat \<Rightarrow> rat) \<Rightarrow> int \<Rightarrow> db_row list \<Rightarrow> aggregate list" where
  "scoring_query pgnum now rows =
     (let w = windowed now rows
      in map (\<lambda>k. aggregate_of pgnum k (filter (\<lambda>r. row_key r = k) w))
           (filter (\<lambda>k. 1 < length (filter (\<lambda>r. row_key r = k) w)) (remdups (map row_key w))))"

section \<open>Statistics of a row\<close>

record leaderboard_stats =
  ls_RunID :: string
  ls_SubmissionID :: string
  ls_TPS :: f64
  ls_P50Latency :: f64
  ls_P90Latency :: f64
  ls_P99Latency :: f64
  ls_ErrorRate :: f64
  ls_CorrectnessRate :: f64
  ls_Score :: f64

text \<open>\<open>rows.Scan\<close> parses the numbers PostgreSQL prints into \<open>float64\<close>.\<close>

definition stats_of :: "aggregate \<Rightarrow> leaderboard_stats" where
  "stats_of a =
     (let total = int (ag_total a); success = int (ag_success a); correct = int (ag_correct a);
          tps = to_f64 (ag_tps a); p90 = to_f64 (ag_p90 a);
          errorRate = (if total > 0
            then f64_sub (Fin 1) (f64_div (f64_of_int success) (f64_of_int total)) else Fin 1);
          correctness = (if success > 0
            then f64_div (f64_of_int correct) (f64_of_int success) else Fin 0);
          effectiveP90 = (if f64_less p90 (Fin 1) then Fin 1 else p90)
      in \<lparr>ls_RunID = ag_run_id a, ls_SubmissionID = ag_submission_id a, ls_TPS = tps,
          ls_P50Latency = to_f64 (ag_p50 a), ls_P90Latency = p90,
          ls_P99Latency = to_f64 (ag_p99 a),
          ls_ErrorRate = errorRate, ls_CorrectnessRate = correctness,
          ls_Score = f64_mul (f64_mul (f64_div (f64_mul tps (Fin 100)) effectiveP90)
                       (f64_sub (Fin 1) errorRate)) correctness\<rparr>)"

definition ranks_before :: "leaderboard_stats \<Rightarrow> leaderboard_stats \<Rightarrow> bool" where
  "ranks_before a b = f64_less (ls_Score b) (ls_Score a)"

text \<open>\<open>json.Marshal\<close> of the board: an error when a number is infinite or not a number.\<close>

fun float_json :: "f64 \<Rightarrow> json option" where
  "float_json (Fin x) = Some (JNum (float_lit x))"
| "float_json _ = None"

definition stats_json :: "leaderboard_stats \<Rightarrow> json option" where
  "stats_json s =
     do {
       tps \<leftarrow> float_json (ls_TPS s);
       p50 \<leftarrow> float_json (ls_P50Latency s);
       p90 \<leftarrow> float_json (ls_P90Latency s);
       p99 \<leftarrow> float_json (ls_P99Latency s);
       er \<leftarrow> float_json (ls_ErrorRate s);
       cr \<leftarrow> float_json (ls_CorrectnessRate s);
       sc \<leftarrow> float_json (ls_Score s);
       Some (JObj [(''run_id'', JStr (ls_RunID s)), (''submission_id'', JStr (ls_SubmissionID s)),
         (''tps'', tps), (''p50_latency_ms'', p50), (''p90_latency_ms'', p90),
         (''p99_latency_ms'', p99), (''error_rate'', er), (''correctness_rate'', cr),
         (''composite_score'', sc)])
     }"

definition board_json :: "leaderboard_stats list \<Rightarrow> string option" where
  "board_json board = map_option (\<lambda>js. json_print (JArr js)) (those (map stats_json board))"

section \<open>Percentiles are ordered and within the values\<close>

text \<open>Latencies whose differences are exact in \<open>float64\<close>.\<close>

definition small_ints :: "int list \<Rightarrow> bool" where
  "small_ints xs \<longleftrightarrow> (\<forall>x \<in> set xs. \<bar>x\<bar> \<le> 2 ^ 52)"

lemma f64r_small_int: "\<bar>x\<bar> \<le> 2 ^ 53 \<Longrightarrow> f64r (of_int x) = of_int x"
  by (rule b64.rd_int)

lemma lerp_bounds:
  assumes "\<bar>a\<bar> \<le> 2 ^ 52" and "\<bar>b\<bar> \<le> 2 ^ 52" and "a \<le> b" and "0 \<le> t" and "t \<le> 1"
  shows "of_int a \<le> lerp (of_int a) (of_int b) t" and "lerp (of_int a) (of_int b) t \<le> of_int b"
proof -
  have d: "f64r (of_int b - of_int a) = of_int b - of_int a"
    using f64r_small_int [of "b - a"] assms by simp
  have "0 \<le> f64r (t * (of_int b - of_int a))" "f64r (t * (of_int b - of_int a)) \<le> of_int b - of_int a"
    using b64.rd_shrink [OF _ d, of t] assms by (simp_all add: mult.commute)
  then have lo: "of_int a \<le> of_int a + f64r (t * (of_int b - of_int a))"
    and hi: "of_int a + f64r (t * (of_int b - of_int a)) \<le> of_int b" by linarith+
  show "of_int a \<le> lerp (of_int a) (of_int b) t"
    unfolding lerp_def d by (rule b64.rd_ge_fixed [OF lo]) (use assms in \<open>simp add: f64r_small_int\<close>)
  show "lerp (of_int a) (of_int b) t \<le> of_int b"
    unfolding lerp_def d by (rule b64.rd_le_fixed [OF hi]) (use assms in \<open>simp add: f64r_small_int\<close>)
qed

lemma lerp_mono: "a \<le> b \<Longrightarrow> t \<le> u \<Longrightarrow> lerp a b t \<le> lerp a b u"
  unfolding lerp_def using b64.rd_nonneg [of "b - a"]
  by (intro b64.rd_mono add_left_mono mult_right_mono) auto

lemma percentile_pos_bounds:
  assumes "0 \<le> p" and "p \<le> 1" and "0 < n" and "n \<le> 2 ^ 53"
  shows "0 \<le> percentile_pos p n" and "percentile_pos p n \<le> of_nat (n - 1)"
proof -
  have m: "f64r (of_nat (n - 1)) = of_nat (n - 1)"
    using b64.rd_int [of "int (n - 1)"] assms(4) by simp
  have p: "0 \<le> f64r p" "f64r p \<le> 1" using assms by (auto intro: b64.rd_nonneg b64.rd_le_1)
  show "0 \<le> percentile_pos p n" and "percentile_pos p n \<le> of_nat (n - 1)"
    unfolding percentile_pos_def m using b64.rd_shrink [OF _ m, of "f64r p"] p
    by (simp_all add: mult.commute)
qed

lemma percentile_pos_mono: "p \<le> q \<Longrightarrow> percentile_pos p n \<le> percentile_pos q n"
  unfolding percentile_pos_def by (intro b64.rd_mono mult_right_mono b64.rd_nonneg) auto

text \<open>The interpolation at position \<open>pos\<close> of sorted integers.\<close>

definition at_pos :: "int list \<Rightarrow> rat \<Rightarrow> rat" where
  "at_pos vs pos =
     (if \<lfloor>pos\<rfloor> = \<lceil>pos\<rceil> then f64r (of_int (vs ! nat \<lfloor>pos\<rfloor>))
      else lerp (f64r (of_int (vs ! nat \<lfloor>pos\<rfloor>))) (f64r (of_int (vs ! nat \<lceil>pos\<rceil>)))
             (f64r (pos - of_int \<lfloor>pos\<rfloor>)))"

lemma percentile_cont_at_pos:
  "xs \<noteq> [] \<Longrightarrow> percentile_cont p xs = Some (at_pos (sort xs) (percentile_pos p (length xs)))"
  by (simp add: percentile_cont_def at_pos_def Let_def)

lemma fract_bounds: "0 \<le> f64r (pos - of_int \<lfloor>pos\<rfloor>)" "f64r (pos - of_int \<lfloor>pos\<rfloor>) \<le> 1"
proof -
  have "0 \<le> pos - of_int \<lfloor>pos\<rfloor>" "pos - of_int \<lfloor>pos\<rfloor> \<le> 1" by linarith+
  then show "0 \<le> f64r (pos - of_int \<lfloor>pos\<rfloor>)" "f64r (pos - of_int \<lfloor>pos\<rfloor>) \<le> 1"
    by (auto intro: b64.rd_nonneg b64.rd_le_1)
qed

lemma pos_index:
  assumes "0 \<le> pos" and "pos \<le> of_nat (length vs - 1)" and "vs \<noteq> []"
  shows "nat \<lfloor>pos\<rfloor> < length vs" and "nat \<lceil>pos\<rceil> < length vs" and "nat \<lfloor>pos\<rfloor> \<le> nat \<lceil>pos\<rceil>"
proof -
  have "\<lceil>pos\<rceil> \<le> int (length vs - 1)" using assms(2) by (simp add: ceiling_le_iff)
  moreover have "\<lfloor>pos\<rfloor> \<le> \<lceil>pos\<rceil>" by (rule floor_le_ceiling)
  moreover have "0 < length vs" using assms(3) by simp
  ultimately show "nat \<lfloor>pos\<rfloor> < length vs" and "nat \<lceil>pos\<rceil> < length vs" and "nat \<lfloor>pos\<rfloor> \<le> nat \<lceil>pos\<rceil>"
    by linarith+
qed

lemma at_pos_bounds:
  assumes "sorted vs" and "small_ints vs" and "vs \<noteq> []" and "0 \<le> pos" and "pos \<le> of_nat (length vs - 1)"
  shows "of_int (vs ! nat \<lfloor>pos\<rfloor>) \<le> at_pos vs pos \<and> at_pos vs pos \<le> of_int (vs ! nat \<lceil>pos\<rceil>)"
proof -
  note idx = pos_index [OF assms(4,5,3)]
  have le: "vs ! nat \<lfloor>pos\<rfloor> \<le> vs ! nat \<lceil>pos\<rceil>"
    using assms(1) idx by (simp add: sorted_nth_mono)
  have small: "\<bar>vs ! nat \<lfloor>pos\<rfloor>\<bar> \<le> 2 ^ 52" "\<bar>vs ! nat \<lceil>pos\<rceil>\<bar> \<le> 2 ^ 52"
    using assms(2) idx by (auto simp: small_ints_def)
  then have exact: "f64r (of_int (vs ! nat \<lfloor>pos\<rfloor>)) = of_int (vs ! nat \<lfloor>pos\<rfloor>)"
    "f64r (of_int (vs ! nat \<lceil>pos\<rceil>)) = of_int (vs ! nat \<lceil>pos\<rceil>)"
    by (auto intro: f64r_small_int)
  show ?thesis
    using lerp_bounds [OF small le fract_bounds] by (simp add: at_pos_def exact le)
qed

lemma at_pos_mono:
  assumes vs: "sorted vs" "small_ints vs" "vs \<noteq> []"
    and x: "0 \<le> x" "x \<le> y" and y: "y \<le> of_nat (length vs - 1)"
  shows "at_pos vs x \<le> at_pos vs y"
proof -
  have yx: "0 \<le> y" "x \<le> of_nat (length vs - 1)" using x y by linarith+
  note bx = at_pos_bounds [OF vs x(1) yx(2)] and bnd = at_pos_bounds [OF vs yx(1) y]
  note ix = pos_index [OF x(1) yx(2) vs(3)] and iy = pos_index [OF yx(1) y vs(3)]
  consider (same) "\<lfloor>x\<rfloor> = \<lfloor>y\<rfloor>" "\<lfloor>x\<rfloor> < \<lceil>x\<rceil>" "\<lfloor>y\<rfloor> < \<lceil>y\<rceil>" | (point) "\<lfloor>x\<rfloor> = \<lceil>x\<rceil>" | (next_seg) "\<lceil>x\<rceil> \<le> \<lfloor>y\<rfloor>"
    using x(2) by linarith
  then show ?thesis
  proof cases
    case same
    then have "\<lceil>x\<rceil> = \<lceil>y\<rceil>" by linarith
    have le: "vs ! nat \<lfloor>y\<rfloor> \<le> vs ! nat \<lceil>y\<rceil>"
      using vs(1) iy by (simp add: sorted_nth_mono)
    have "f64r (x - of_int \<lfloor>x\<rfloor>) \<le> f64r (y - of_int \<lfloor>y\<rfloor>)"
      using same(1) x(2) by (intro b64.rd_mono) simp
    with same \<open>\<lceil>x\<rceil> = \<lceil>y\<rceil>\<close> le show ?thesis
      by (auto simp: at_pos_def intro!: lerp_mono b64.rd_mono)
  next
    case point
    then have "\<lceil>x\<rceil> \<le> \<lfloor>y\<rfloor>" using x(2) by linarith
    with bx bnd ix iy vs(1) point show ?thesis
      by (smt (verit, ccfv_threshold) nat_mono of_int_le_iff order_trans sorted_nth_mono)
  next
    case next_seg
    then have "vs ! nat \<lceil>x\<rceil> \<le> vs ! nat \<lfloor>y\<rfloor>"
      using vs(1) iy(1) by (intro sorted_nth_mono nat_mono)
    with bx bnd show ?thesis by (meson of_int_le_iff order_trans)
  qed
qed

text \<open>
  C14 (functional). The latencies a row of the query reports are ordered, P50 \<open>\<le>\<close> P90 \<open>\<le>\<close> P99,
  in spite of the rounding of every step, when the latencies are below \<open>2 ^ 52\<close> ms and the
  group has at most \<open>2 ^ 53\<close> rows.
\<close>

theorem percentiles_ordered:
  assumes "small_ints (good_latencies g)" and "length g \<le> 2 ^ 53"
  shows "ag_p50 (aggregate_of pgnum k g) \<le> ag_p90 (aggregate_of pgnum k g) \<and>
    ag_p90 (aggregate_of pgnum k g) \<le> ag_p99 (aggregate_of pgnum k g)"
proof (cases "good_latencies g = []")
  case True
  then show ?thesis by (simp add: aggregate_of_def percentile_cont_def)
next
  case False
  let ?xs = "good_latencies g"
  have len: "0 < length ?xs" "length ?xs \<le> 2 ^ 53"
    using False order_trans [OF length_filter_le [of good_row g] assms(2)]
    by (simp_all add: good_latencies_def)
  have mono: "at_pos (sort ?xs) (percentile_pos p (length ?xs)) \<le> at_pos (sort ?xs) (percentile_pos q (length ?xs))"
    if "0 \<le> p" "p \<le> q" "q \<le> 1" for p q
    using that assms(1) False percentile_pos_bounds [of p, OF _ _ len]
      percentile_pos_bounds [of q, OF _ _ len] percentile_pos_mono [of p q]
    by (intro at_pos_mono) (auto simp: small_ints_def set_empty [symmetric] simp del: set_empty)
  show ?thesis
    using False mono [of "50 / 100" "90 / 100"] mono [of "90 / 100" "99 / 100"]
    by (simp add: aggregate_of_def percentile_cont_at_pos coalesce_def)
qed

theorem percentiles_ordered_witness:
  "ag_p50 (aggregate_of id (''R'', ''S'') [\<lparr>row_time = 0, row_run_id = ''R'', row_order_id = ''ORD-1'',
       row_submission_id = ''S'', row_latency_ms = 7, row_is_successful = True, row_is_correct = True\<rparr>])
   \<le> ag_p90 (aggregate_of id (''R'', ''S'') [\<lparr>row_time = 0, row_run_id = ''R'', row_order_id = ''ORD-1'',
       row_submission_id = ''S'', row_latency_ms = 7, row_is_successful = True, row_is_correct = True\<rparr>])"
  by (rule conjunct1, rule percentiles_ordered) (simp_all add: small_ints_def good_latencies_def)

end
