(* ===== verification/TelemetryProps.thy ===== *)
theory TelemetryProps
  imports Telemetry
begin

text \<open>
  What the consumer loop promises: a Kafka offset is committed only after its row is in the
  table (at least once), nothing decodable is lost over any pattern of database and broker
  failures, and without failures the table is exactly the judged messages in order. A commit
  that fails after the flush stores the batch twice.
\<close>

section \<open>Abstract specification\<close>

definition decodable :: "message \<Rightarrow> bool" where
  "decodable m \<longleftrightarrow> decode_event (msg_Value m) \<noteq> None"

text \<open>The messages judged one after the other by one book; undecodable ones are skipped.\<close>

fun judge :: "order_book \<Rightarrow> message list \<Rightarrow> validated_order list" where
  "judge ob [] = []"
| "judge ob (m # ms) =
     (case decode_event (msg_Value m) of
        None \<Rightarrow> judge ob ms
      | Some ev \<Rightarrow>
          (let (ob1, v) = ValidateOrder ob ev
           in \<lparr>vo_Event = ev, vo_IsCorrect = is_correct v\<rparr> # judge ob1 ms))"

fun fetched :: "event list \<Rightarrow> message list" where
  "fetched [] = []"
| "fetched (Fetched m db kc # es) = m # fetched es"
| "fetched (Tick db kc # es) = fetched es"
| "fetched (FetchFailed # es) = fetched es"

definition db_ok :: "db_env \<Rightarrow> bool" where
  "db_ok e \<longleftrightarrow> db_begin e \<and> db_prepare e \<and> (\<forall>i. db_exec e i) \<and> db_copy_end e \<and> db_close e \<and>
     db_commit e = Committed"

fun faultless :: "event \<Rightarrow> bool" where
  "faultless (Tick db kc) = (db_ok db \<and> kc_ok kc)"
| "faultless (Fetched m db kc) = (db_ok db \<and> kc_ok kc)"
| "faultless FetchFailed = True"

lemma fetched_append: "fetched (xs @ ys) = fetched xs @ fetched ys"
  by (induction xs rule: fetched.induct) auto

lemma flush_ok_stores: "db_ok e \<Longrightarrow> flushBatchToDB e t b = (t @ map row_of b, None)"
  by (cases b) (simp_all add: flushBatchToDB_def db_ok_def copy_rows_all)

lemma flush_ok:
  "db_ok db \<Longrightarrow> kc_ok kc \<Longrightarrow> list_all2 carries (tl_pending s) (tl_batch s) \<Longrightarrow>
   flush db kc s = s\<lparr>tl_rows := tl_rows s @ map row_of (tl_batch s),
     tl_committed := tl_committed s @ tl_pending s, tl_batch := [], tl_pending := []\<rparr>"
  by (cases s; cases "tl_batch s") (auto simp: flush_def flush_ok_stores)

lemma flush_rows: "db_ok db \<Longrightarrow> tl_rows (flush db kc s) = tl_rows s @ map row_of (tl_batch s)"
  by (auto simp: flush_def flush_ok_stores Let_def)

lemma flush_kept_batch: "db_ok db \<Longrightarrow> \<not> kc_ok kc \<Longrightarrow> tl_batch (flush db kc s) = tl_batch s"
  by (auto simp: flush_def flush_ok_stores Let_def)

section \<open>At least once\<close>

text \<open>
  C3 (safety). However the database and the broker fail, once the consumer has committed the
  offset of a message, a row for the event it carries is in the table.
\<close>

theorem committed_messages_stored:
  "list_all (stored (tl_rows (telemetry_run (telemetry_start []) es)))
     (tl_committed (telemetry_run (telemetry_start []) es))"
  using telemetry_run_inv [OF telemetry_start_inv [of "[]"], of es]
  by (simp add: telemetry_inv_def)

text \<open>
  If every row marked correct is marked successful when the service starts,
  this holds after any run: the condition on which the leaderboard's rates rest.
\<close>

lemma stored_rows_sound:
  "list_all sound_row rows \<Longrightarrow> list_all sound_row (tl_rows (telemetry_run (telemetry_start rows) es))"
  using telemetry_run_inv [OF telemetry_start_inv, of rows es] by (simp add: telemetry_inv_def)

definition ok_row :: db_row where
  "ok_row = \<lparr>row_time = 0, row_run_id = ''RUN-1'', row_order_id = ''ORD-1'', row_submission_id = ''S'',
     row_latency_ms = 2, row_is_successful = True, row_is_correct = True\<rparr>"

section \<open>Nothing is lost\<close>

text \<open>A decodable message that was fetched is stored or still pending.\<close>

definition kept :: "telemetry \<Rightarrow> message \<Rightarrow> bool" where
  "kept s m \<longleftrightarrow> stored (tl_rows s) m \<or> m \<in> set (tl_pending s)"

lemma flush_kept: "telemetry_inv s \<Longrightarrow> kept s m \<Longrightarrow> kept (flush db kc s) m"
  by (rule flush_cases [of db kc s])
    (auto simp: kept_def telemetry_inv_def intro: stored_mono carries_stored)

lemma consume_kept: "consume m s = Some s1 \<Longrightarrow> kept s x \<or> x = m \<Longrightarrow> kept s1 x"
  by (auto simp: consume_def kept_def split: option.splits prod.splits)

lemma consume_Some: "decodable m \<Longrightarrow> consume m s \<noteq> None"
  by (auto simp: consume_def decodable_def split: prod.splits)

lemma telemetry_step_kept:
  "telemetry_inv s \<Longrightarrow> kept s x \<or> decodable x \<and> x \<in> set (fetched [e]) \<Longrightarrow>
   kept (telemetry_step s e) x"
proof (cases e)
  case (Fetched m db kc)
  assume s: "telemetry_inv s" and x: "kept s x \<or> decodable x \<and> x \<in> set (fetched [e])"
  show ?thesis
  proof (cases "consume m s")
    case None
    with x Fetched show ?thesis by (auto dest: consume_Some)
  next
    case (Some s1)
    with s x Fetched have "telemetry_inv s1" and "kept s1 x"
      by (auto intro: consume_inv consume_kept)
    with Fetched Some show ?thesis by (simp add: flush_kept)
  qed
qed (auto simp: flush_kept)

lemma telemetry_run_kept:
  "telemetry_inv s \<Longrightarrow> kept s x \<or> decodable x \<and> x \<in> set (fetched es) \<Longrightarrow>
   kept (telemetry_run s es) x"
proof (induction es arbitrary: s)
  case (Cons e es)
  have "fetched (e # es) = fetched [e] @ fetched es"
    using fetched_append [of "[e]" es] by simp
  with Cons.prems have "kept (telemetry_step s e) x \<or> decodable x \<and> x \<in> set (fetched es)"
    using telemetry_step_kept by auto
  with Cons show ?case by (simp add: telemetry_step_inv)
qed simp

lemma pending_stored_by_flush:
  "telemetry_inv s \<Longrightarrow> db_ok db \<Longrightarrow> kept s m \<Longrightarrow> stored (tl_rows (flush db kc s)) m"
  by (auto simp: flush_rows kept_def telemetry_inv_def intro: stored_mono carries_stored)

text \<open>
  C17 (liveness). Whatever failed before, the first tick at which the database works stores
  every decodable message fetched so far.
\<close>

theorem working_tick_stores_all:
  "db_ok db \<Longrightarrow> m \<in> set (fetched es) \<Longrightarrow> decodable m \<Longrightarrow>
   stored (tl_rows (telemetry_run (telemetry_start []) (es @ [Tick db kc]))) m"
  by (simp add: telemetry_run_append pending_stored_by_flush telemetry_run_kept
      telemetry_run_inv telemetry_start_inv)

text \<open>Environments and a message for the witnesses.\<close>

definition good_db :: db_env where
  "good_db = \<lparr>db_begin = True, db_prepare = True, db_exec = (\<lambda>_. True), db_copy_end = True,
     db_close = True, db_commit = Committed\<rparr>"

definition bad_db :: db_env where
  "bad_db = good_db\<lparr>db_commit := CommitRefused\<rparr>"

definition good_kafka :: kafka_env where
  "good_kafka = \<lparr>kc_ok = True, kc_applied = (\<lambda>_. True)\<rparr>"

definition bad_kafka :: kafka_env where
  "bad_kafka = \<lparr>kc_ok = False, kc_applied = (\<lambda>_. False)\<rparr>"

definition sample_message :: message where
  "sample_message = \<lparr>msg_Partition = 0, msg_Offset = 7, msg_Value = ''{}''\<rparr>"

lemma sample_decodes: "decode_event ''{}'' = Some zero_event"
  by code_simp

lemma sample_envs [simp]:
  "db_ok good_db" "\<not> db_ok bad_db" "kc_ok good_kafka" "\<not> kc_ok bad_kafka"
  by (simp_all add: db_ok_def good_db_def bad_db_def good_kafka_def bad_kafka_def)

theorem working_tick_stores_all_witness:
  "stored (tl_rows (telemetry_run (telemetry_start [])
     ([Fetched sample_message bad_db good_kafka, Tick bad_db good_kafka] @ [Tick good_db bad_kafka])))
   sample_message"
  by (rule working_tick_stores_all) (simp_all add: decodable_def sample_message_def sample_decodes)

section \<open>Without failures: exactly the judged messages, in order\<close>

lemma consume_None: "\<not> decodable m \<Longrightarrow> consume m s = None"
  by (simp add: consume_def decodable_def)

lemma judge_Cons:
  "consume m s = Some s1 \<Longrightarrow>
   judge (tl_book s) (m # ms) = (drop (length (tl_batch s)) (tl_batch s1)) @ judge (tl_book s1) ms \<and>
   take (length (tl_batch s)) (tl_batch s1) = tl_batch s \<and> tl_rows s1 = tl_rows s \<and>
   tl_pending s1 = tl_pending s @ [m] \<and> tl_committed s1 = tl_committed s \<and> decodable m"
  by (auto simp: consume_def decodable_def split: option.splits prod.splits)

text \<open>What the state owes the specification: the rows stored and batched, the offsets.\<close>

definition owes :: "telemetry \<Rightarrow> message list \<Rightarrow> db_row list \<times> message list" where
  "owes s ms = (tl_rows s @ map row_of (tl_batch s) @ map row_of (judge (tl_book s) ms),
     tl_committed s @ tl_pending s @ filter decodable ms)"

text \<open>Without looking at the rows the table had before.\<close>

definition batch_inv :: "telemetry \<Rightarrow> bool" where
  "batch_inv s \<longleftrightarrow> list_all2 carries (tl_pending s) (tl_batch s)"

lemma batch_inv_consume: "batch_inv s \<Longrightarrow> consume m s = Some s1 \<Longrightarrow> batch_inv s1"
  by (auto simp: consume_def batch_inv_def carries_def list_all2_appendI
      split: option.splits prod.splits)

lemma batch_inv_flush: "batch_inv s \<Longrightarrow> batch_inv (flush db kc s)"
  by (rule flush_cases [of db kc s]) (auto simp: batch_inv_def)

lemma batch_inv_step: "batch_inv s \<Longrightarrow> batch_inv (telemetry_step s e)"
  by (cases e) (auto simp: batch_inv_flush batch_inv_consume split: option.split)

lemma batch_inv_run: "batch_inv s \<Longrightarrow> batch_inv (telemetry_run s es)"
  by (induction es arbitrary: s) (simp_all add: batch_inv_step)

lemma owes_flush: "batch_inv s \<Longrightarrow> db_ok db \<Longrightarrow> kc_ok kc \<Longrightarrow> owes (flush db kc s) ms = owes s ms"
  by (simp add: owes_def flush_ok batch_inv_def)

lemma owes_consume: "consume m s = Some s1 \<Longrightarrow> owes s1 ms = owes s (m # ms)"
  by (auto simp: owes_def consume_def decodable_def split: option.splits prod.splits)

lemma owes_skip: "consume m s = None \<Longrightarrow> owes s (m # ms) = owes s ms"
  by (auto simp: owes_def consume_def decodable_def split: option.splits prod.splits)

lemma owes_run:
  "batch_inv s \<Longrightarrow> list_all faultless es \<Longrightarrow>
   owes (telemetry_run s es) ms = owes s (fetched es @ ms)"
proof (induction es arbitrary: s)
  case (Cons e es)
  then have IH: "owes (telemetry_run s (e # es)) ms = owes (telemetry_step s e) (fetched es @ ms)"
    by (simp add: batch_inv_step)
  show ?case
  proof (cases e)
    case (Fetched m db kc)
    with Cons.prems IH show ?thesis
      by (cases "consume m s") (simp_all add: owes_skip owes_consume owes_flush batch_inv_consume)
  qed (use Cons.prems IH in \<open>simp_all add: owes_flush\<close>)
qed simp

text \<open>
  C5 (refinement). s with a tick has stored exactly one row
  per decodable message, in the order they were fetched and judged by one order book, and has
  committed exactly those messages.
\<close>

theorem faultless_run_exact:
  assumes "list_all faultless es" and "db_ok db" and "kc_ok kc"
  shows "tl_rows (telemetry_run (telemetry_start rows) (es @ [Tick db kc]))
      = rows @ map row_of (judge NewOrderBook (fetched es)) \<and>
    tl_committed (telemetry_run (telemetry_start rows) (es @ [Tick db kc])) = filter decodable (fetched es)"
proof -
  let ?s = "telemetry_start rows"
  have pre: "batch_inv ?s" by (simp add: batch_inv_def telemetry_start_def)
  let ?t = "telemetry_run ?s (es @ [Tick db kc])"
  have fin: "owes ?t [] = owes ?s (fetched es)"
    using owes_run [OF pre, of "es @ [Tick db kc]" "[]"] assms by (simp add: fetched_append)
  have "tl_batch ?t = [] \<and> tl_pending ?t = []"
    using assms batch_inv_run [OF pre, of es] by (simp add: telemetry_run_append flush_ok batch_inv_def)
  with fin show ?thesis by (simp add: owes_def telemetry_start_def)
qed

theorem faultless_run_exact_witness:
  "tl_rows (telemetry_run (telemetry_start []) ([Fetched sample_message good_db good_kafka] @ [Tick good_db good_kafka]))
     = [] @ map row_of (judge NewOrderBook (fetched [Fetched sample_message good_db good_kafka])) \<and>
   tl_committed (telemetry_run (telemetry_start []) ([Fetched sample_message good_db good_kafka] @ [Tick good_db good_kafka]))
     = filter decodable (fetched [Fetched sample_message good_db good_kafka])"
  by (rule faultless_run_exact) simp_all

section \<open>The size of a batch\<close>

lemma consume_length: "consume m s = Some s1 \<Longrightarrow> length (tl_batch s1) = length (tl_batch s) + 1"
  by (auto simp: consume_def split: option.splits prod.splits)

lemma faultless_step_bound:
  "batch_inv s \<Longrightarrow> faultless e \<Longrightarrow> length (tl_batch s) < batchLimit \<Longrightarrow>
   length (tl_batch (telemetry_step s e)) < batchLimit"
  by (cases e) (auto simp: flush_ok batch_inv_def [symmetric] batch_inv_consume batchLimit_def
      split: option.split)

lemma faultless_run_bound:
  "batch_inv s \<Longrightarrow> list_all faultless es \<Longrightarrow> length (tl_batch s) < batchLimit \<Longrightarrow>
   length (tl_batch (telemetry_run s es)) < batchLimit"
  by (induction es arbitrary: s) (simp_all add: faultless_step_bound batch_inv_step)

text \<open>
  While no call fails the batch holds fewer than 1000 events after every pass of
  the loop, so appending one never exceeds the capacity its slice is made with.
\<close>

lemma batch_bounded:
  "list_all faultless es \<Longrightarrow> length (tl_batch (telemetry_run (telemetry_start rows) es)) < batchLimit"
  by (rule faultless_run_bound) (simp_all add: telemetry_start_def batchLimit_def batch_inv_def)

section \<open>A commit that fails\<close>

text \<open>
  C31 (error). When the rows are stored but the offset commit fails, the batch stays in memory
  and the next flush stores every one of its rows a second time (the table has no key).
\<close>

theorem failed_commit_duplicates_rows:
  assumes "db_ok db" and "\<not> kc_ok kc" and "db_ok db'"
  shows "tl_rows (flush db' kc' (flush db kc s)) =
    tl_rows s @ map row_of (tl_batch s) @ map row_of (tl_batch s)"
  using assms by (simp add: flush_rows flush_kept_batch)

theorem failed_commit_duplicates_rows_witness:
  "tl_rows (flush good_db good_kafka (flush good_db bad_kafka
     ((telemetry_start [])\<lparr>tl_batch := [\<lparr>vo_Event = zero_event, vo_IsCorrect = True\<rparr>]\<rparr>))) =
   [row_of \<lparr>vo_Event = zero_event, vo_IsCorrect = True\<rparr>, row_of \<lparr>vo_Event = zero_event, vo_IsCorrect = True\<rparr>]"
  using failed_commit_duplicates_rows [of good_db bad_kafka good_db good_kafka
      "(telemetry_start [])\<lparr>tl_batch := [\<lparr>vo_Event = zero_event, vo_IsCorrect = True\<rparr>]\<rparr>"]
  by (simp add: telemetry_start_def)

end
