(* ===== verification/ScoringProps.thy ===== *)
theory ScoringProps
  imports Scoring TelemetryProps
begin

text \<open>
  What the statistics of a row promise: rates between 0 and 1, a finite score that is not
  negative and at most a hundred times the throughput, so that marshalling the board cannot
  fail; and the documented formula \<open>TPS * 100 / P90\<close>, which holds for a submission without errors.
\<close>

section \<open>Ranges\<close>

definition unit_f64 :: "f64 \<Rightarrow> bool" where
  "unit_f64 x \<longleftrightarrow> (case x of Fin r \<Rightarrow> 0 \<le> r \<and> r \<le> 1 | _ \<Rightarrow> False)"

text \<open>Rounding a quotient leaves it between 0 and a little above it.\<close>

definition sane_numeric :: "(rat \<Rightarrow> rat) \<Rightarrow> bool" where
  "sane_numeric pgnum \<longleftrightarrow> (\<forall>x. 0 \<le> x \<longrightarrow> 0 \<le> pgnum x \<and> pgnum x \<le> x + 1)"

definition sane_aggregate :: "aggregate \<Rightarrow> bool" where
  "sane_aggregate a \<longleftrightarrow>
     0 \<le> ag_tps a \<and> ag_tps a \<le> 2 ^ 100 \<and> \<bar>ag_p50 a\<bar> \<le> 2 ^ 52 \<and> \<bar>ag_p90 a\<bar> \<le> 2 ^ 52 \<and> \<bar>ag_p99 a\<bar> \<le> 2 ^ 52 \<and>
     ag_correct a \<le> ag_success a \<and> ag_success a \<le> ag_total a \<and> ag_total a \<le> 2 ^ 53"

lemma pow_le: "i \<le> 1000 \<Longrightarrow> (2 :: rat) ^ i \<le> 2 ^ 1000"
  by (rule power_increasing) auto

lemma to_f64_small: "\<bar>x\<bar> \<le> 2 ^ i \<Longrightarrow> i \<le> 1000 \<Longrightarrow> to_f64 x = Fin (f64r x)"
  using pow_le [of i] by (intro to_f64_Fin) linarith

lemma f64_of_count: "n \<le> 2 ^ 53 \<Longrightarrow> f64_of_int (int n) = Fin (of_nat n)"
proof -
  assume "n \<le> 2 ^ 53"
  then have n: "\<bar>int n\<bar> \<le> 2 ^ 53" by simp
  then have "\<bar>rat_of_int (int n)\<bar> \<le> of_int (2 ^ 53)" unfolding of_int_abs [symmetric] of_int_le_iff .
  then have "\<bar>rat_of_int (int n)\<bar> \<le> 2 ^ 53" unfolding of_int_power of_int_numeral .
  from to_f64_small [OF this] b64.rd_int [OF n] show ?thesis by (simp add: f64_of_int_def)
qed

lemma f64_unit: "0 \<le> x \<Longrightarrow> x \<le> 1 \<Longrightarrow> to_f64 x = Fin (f64r x)"
  by (rule to_f64_small [of x 0]) auto

lemma rate_f64:
  "x \<le> y \<Longrightarrow> 0 < y \<Longrightarrow> y \<le> 2 ^ 53 \<Longrightarrow>
   f64_div (f64_of_int (int x)) (f64_of_int (int y)) = Fin (f64r (of_nat x / of_nat y))"
  by (simp add: f64_of_count f64_unit)

lemma rate_range: "x \<le> y \<Longrightarrow> 0 \<le> f64r (of_nat x / of_nat y) \<and> f64r (of_nat x / of_nat y) \<le> 1"
  by (auto intro!: b64.rd_nonneg b64.rd_le_1 simp: divide_le_eq_1)

lemma complement_f64: "0 \<le> c \<Longrightarrow> c \<le> 1 \<Longrightarrow>
   f64_sub (Fin 1) (Fin c) = Fin (f64r (1 - c)) \<and> 0 \<le> f64r (1 - c) \<and> f64r (1 - c) \<le> 1"
  by (auto simp: f64_sub_def f64_unit intro: b64.rd_nonneg b64.rd_le_1)

lemma rounded_up: "0 \<le> x \<Longrightarrow> x \<le> 2 ^ i \<Longrightarrow> i \<le> 970 \<Longrightarrow> 0 \<le> f64r x \<and> f64r x \<le> 2 ^ i"
proof -
  assume "0 \<le> x" "x \<le> 2 ^ i" "i \<le> 970"
  have e: "(2 :: rat) ^ i = of_int 1 * pow2 (int i)" by (simp add: pow2_def)
  have "f64r (2 ^ i) = 2 ^ i" unfolding e f64r_def by (rule fl_exact) (auto simp: pow2_53)
  with \<open>0 \<le> x\<close> \<open>x \<le> 2 ^ i\<close> show ?thesis by (auto intro: b64.rd_nonneg b64.rd_le_fixed)
qed

lemma f64_shrink:
  assumes "0 \<le> x" "x \<le> 2 ^ i" "i \<le> 970" "0 \<le> c" "c \<le> 1" "f64r x = x"
  shows "f64_mul (Fin x) (Fin c) = Fin (f64r (x * c)) \<and> 0 \<le> f64r (x * c) \<and> f64r (x * c) \<le> x"
proof -
  have "0 \<le> x * c" "x * c \<le> x" using assms by (auto intro: mult_left_le)
  then have "\<bar>x * c\<bar> \<le> 2 ^ i" using assms(2) by linarith
  with assms b64.rd_shrink [of x c] show ?thesis by (simp add: to_f64_small)
qed

lemma f64_grow:
  assumes "0 \<le> x" "x \<le> 2 ^ i" "i \<le> 970" "1 \<le> e" "f64r x = x"
  shows "f64_div (Fin x) (Fin e) = Fin (f64r (x / e)) \<and> 0 \<le> f64r (x / e) \<and> f64r (x / e) \<le> x"
proof -
  have "0 \<le> x / e" "x / e \<le> x" using assms by (auto simp: divide_le_eq mult_le_cancel_left1)
  then have "\<bar>x / e\<bar> \<le> 2 ^ i" using assms(2) by linarith
  then have "to_f64 (x / e) = Fin (f64r (x / e))" by (rule to_f64_small) (use assms in simp)
  with assms \<open>0 \<le> x / e\<close> \<open>x / e \<le> x\<close> show ?thesis
    by (auto intro: b64.rd_nonneg b64.rd_le_fixed)
qed

text \<open>The value of every figure of a row, with the range of each.\<close>

definition eff_p90 :: "aggregate \<Rightarrow> rat" where
  "eff_p90 a = (if f64r (ag_p90 a) < 1 then 1 else f64r (ag_p90 a))"

definition base_score :: "aggregate \<Rightarrow> rat" where
  "base_score a = f64r (f64r (f64r (ag_tps a) * 100) / eff_p90 a)"

definition success_factor :: "aggregate \<Rightarrow> rat" where
  "success_factor a = f64r (1 - f64r (1 - f64r (of_nat (ag_success a) / of_nat (ag_total a))))"

definition correct_factor :: "aggregate \<Rightarrow> rat" where
  "correct_factor a = (if ag_success a = 0 then 0 else f64r (of_nat (ag_correct a) / of_nat (ag_success a)))"

lemma eff_p90_ge_1: "1 \<le> eff_p90 a"
  by (simp add: eff_p90_def)

lemma tps_range:
  assumes "sane_aggregate a"
  shows "0 \<le> f64r (ag_tps a)" "f64r (ag_tps a) \<le> 2 ^ 100"
    "0 \<le> f64r (f64r (ag_tps a) * 100)" "f64r (f64r (ag_tps a) * 100) \<le> 2 ^ 107"
proof -
  have t: "0 \<le> f64r (ag_tps a) \<and> f64r (ag_tps a) \<le> 2 ^ 100"
    using assms by (intro rounded_up) (auto simp: sane_aggregate_def)
  then have "0 \<le> f64r (ag_tps a) * 100 \<and> f64r (ag_tps a) * 100 \<le> 2 ^ 107" by auto
  then have "0 \<le> f64r (f64r (ag_tps a) * 100) \<and> f64r (f64r (ag_tps a) * 100) \<le> 2 ^ 107"
    by (intro rounded_up) auto
  with t show "0 \<le> f64r (ag_tps a)" "f64r (ag_tps a) \<le> 2 ^ 100"
    "0 \<le> f64r (f64r (ag_tps a) * 100)" "f64r (f64r (ag_tps a) * 100) \<le> 2 ^ 107" by auto
qed

lemma factors_range:
  assumes "sane_aggregate a"
  shows "0 \<le> success_factor a" "success_factor a \<le> 1" "0 \<le> correct_factor a" "correct_factor a \<le> 1"
proof -
  have q: "0 \<le> f64r (of_nat (ag_success a) / of_nat (ag_total a)) \<and>
      f64r (of_nat (ag_success a) / of_nat (ag_total a)) \<le> 1"
    using assms by (intro rate_range) (auto simp: sane_aggregate_def)
  from complement_f64 [of "f64r (of_nat (ag_success a) / of_nat (ag_total a))"] q
    complement_f64 [of "f64r (1 - f64r (of_nat (ag_success a) / of_nat (ag_total a)))"]
  show "0 \<le> success_factor a" "success_factor a \<le> 1" by (auto simp: success_factor_def)
  show "0 \<le> correct_factor a" "correct_factor a \<le> 1"
    using assms rate_range [of "ag_correct a" "ag_success a"]
    by (auto simp: correct_factor_def sane_aggregate_def)
qed

lemma stats_of_values:
  assumes a: "sane_aggregate a" and t: "0 < ag_total a"
  shows "stats_of a = \<lparr>ls_RunID = ag_run_id a, ls_SubmissionID = ag_submission_id a,
     ls_TPS = Fin (f64r (ag_tps a)), ls_P50Latency = Fin (f64r (ag_p50 a)),
     ls_P90Latency = Fin (f64r (ag_p90 a)), ls_P99Latency = Fin (f64r (ag_p99 a)),
     ls_ErrorRate = Fin (f64r (1 - f64r (of_nat (ag_success a) / of_nat (ag_total a)))),
     ls_CorrectnessRate = Fin (correct_factor a),
     ls_Score = Fin (f64r (f64r (base_score a * success_factor a) * correct_factor a))\<rparr>"
proof -
  let ?q = "f64r (of_nat (ag_success a) / of_nat (ag_total a))"
  have s: "ag_success a \<le> ag_total a" "ag_total a \<le> 2 ^ 53" "ag_correct a \<le> ag_success a"
    using a by (auto simp: sane_aggregate_def)
  have p: "to_f64 (ag_p50 a) = Fin (f64r (ag_p50 a))" "to_f64 (ag_p90 a) = Fin (f64r (ag_p90 a))"
    "to_f64 (ag_p99 a) = Fin (f64r (ag_p99 a))" "to_f64 (ag_tps a) = Fin (f64r (ag_tps a))"
    using a by (auto intro!: to_f64_small [where i = 52] to_f64_small [where i = 100] simp: sane_aggregate_def)
  have q: "0 \<le> ?q \<and> ?q \<le> 1" using s(1) by (rule rate_range)
  have er: "f64_sub (Fin 1) (f64_div (f64_of_int (int (ag_success a))) (f64_of_int (int (ag_total a)))) = Fin (f64r (1 - ?q))"
    using complement_f64 [of ?q] q rate_f64 [OF s(1) t s(2)] by simp
  have sf: "f64_sub (Fin 1) (Fin (f64r (1 - ?q))) = Fin (success_factor a)"
    using complement_f64 [of ?q] complement_f64 [of "f64r (1 - ?q)"] q by (simp add: success_factor_def)
  have cr: "(if int (ag_success a) > 0 then f64_div (f64_of_int (int (ag_correct a))) (f64_of_int (int (ag_success a)))
      else Fin 0) = Fin (correct_factor a)"
    using rate_f64 [OF s(3)] s by (simp add: correct_factor_def)
  note T = tps_range [OF a] and F = factors_range [OF a]
  have "f64r (ag_tps a) * 100 \<le> 2 ^ 107" using T(2) by simp
  then have m: "f64_mul (Fin (f64r (ag_tps a))) (Fin 100) = Fin (f64r (f64r (ag_tps a) * 100))"
    using T(1) by (simp add: to_f64_small [where i = 107])
  have "f64_div (Fin (f64r (f64r (ag_tps a) * 100))) (Fin (eff_p90 a)) = Fin (base_score a) \<and>
      0 \<le> base_score a \<and> base_score a \<le> f64r (f64r (ag_tps a) * 100)"
    unfolding base_score_def
    by (rule f64_grow [where i = 107]) (use T in \<open>simp_all add: eff_p90_ge_1 b64.rd_idem\<close>)
  then have d: "f64_div (Fin (f64r (f64r (ag_tps a) * 100))) (Fin (eff_p90 a)) = Fin (base_score a)"
    and b: "0 \<le> base_score a" "base_score a \<le> 2 ^ 107" using T by auto
  have m1: "f64_mul (Fin (base_score a)) (Fin (success_factor a)) = Fin (f64r (base_score a * success_factor a)) \<and>
      0 \<le> f64r (base_score a * success_factor a) \<and> f64r (base_score a * success_factor a) \<le> base_score a"
    by (rule f64_shrink [where i = 107]) (use b F in \<open>simp_all add: base_score_def b64.rd_idem\<close>)
  have m2: "f64_mul (Fin (f64r (base_score a * success_factor a))) (Fin (correct_factor a)) =
      Fin (f64r (f64r (base_score a * success_factor a) * correct_factor a)) \<and>
      0 \<le> f64r (f64r (base_score a * success_factor a) * correct_factor a) \<and>
      f64r (f64r (base_score a * success_factor a) * correct_factor a) \<le> f64r (base_score a * success_factor a)"
    by (rule f64_shrink [where i = 107]) (use b F m1 in \<open>auto simp: b64.rd_idem intro: order_trans\<close>)
  have e: "(if f64_less (Fin (f64r (ag_p90 a))) (Fin 1) then Fin 1 else Fin (f64r (ag_p90 a))) = Fin (eff_p90 a)"
    by (simp add: eff_p90_def)
  show ?thesis
    using t m1 m2 unfolding stats_of_def Let_def p er cr e m d
    by (simp add: sf er)
qed

lemma score_range:
  assumes a: "sane_aggregate a"
  shows "0 \<le> f64r (f64r (base_score a * success_factor a) * correct_factor a) \<and>
    f64r (f64r (base_score a * success_factor a) * correct_factor a) \<le> f64r (f64r (ag_tps a) * 100)"
proof -
  note T = tps_range [OF a] and F = factors_range [OF a]
  have b: "0 \<le> base_score a" "base_score a \<le> f64r (f64r (ag_tps a) * 100)"
    using f64_grow [of "f64r (f64r (ag_tps a) * 100)" 107 "eff_p90 a"] T
    by (auto simp: base_score_def eff_p90_ge_1 b64.rd_idem)
  have m1: "0 \<le> f64r (base_score a * success_factor a)" "f64r (base_score a * success_factor a) \<le> base_score a"
    using b64.rd_shrink [of "base_score a" "success_factor a"] b F by (simp_all add: base_score_def b64.rd_idem)
  have "0 \<le> f64r (f64r (base_score a * success_factor a) * correct_factor a)"
    "f64r (f64r (base_score a * success_factor a) * correct_factor a) \<le> f64r (base_score a * success_factor a)"
    using b64.rd_shrink [of "f64r (base_score a * success_factor a)" "correct_factor a"] m1 F
    by (simp_all add: b64.rd_idem)
  with m1 b show ?thesis by auto
qed


section \<open>The rows of the query are in range\<close>

lemma percentile_small:
  assumes "small_ints xs" and "length xs \<le> 2 ^ 53" and "0 \<le> p" and "p \<le> 1"
  shows "\<bar>coalesce (percentile_cont p xs) 0\<bar> \<le> 2 ^ 52"
proof (cases "xs = []")
  case True
  then show ?thesis by (simp add: percentile_cont_def coalesce_def)
next
  case False
  let ?vs = "sort xs" and ?pos = "percentile_pos p (length xs)"
  have len: "0 < length xs" using False by simp
  note pos = percentile_pos_bounds [OF assms(3,4) len assms(2)]
  have vs: "small_ints ?vs" "?vs \<noteq> []" "?pos \<le> of_nat (length ?vs - 1)"
    using assms(1) False pos(2) by (auto simp: small_ints_def set_empty [symmetric] simp del: set_empty)
  note idx = pos_index [OF pos(1) vs(3,2)]
  have small: "\<bar>rat_of_int (?vs ! i)\<bar> \<le> 2 ^ 52" if "i < length ?vs" for i
  proof -
    have "?vs ! i \<in> set xs" using nth_mem [OF that] by simp
    then have "\<bar>?vs ! i\<bar> \<le> 2 ^ 52" using assms(1) by (simp add: small_ints_def)
    then have "\<bar>rat_of_int (?vs ! i)\<bar> \<le> of_int (2 ^ 52)"
      unfolding of_int_abs [symmetric] of_int_le_iff .
    then show ?thesis by simp
  qed
  have "of_int (?vs ! nat \<lfloor>?pos\<rfloor>) \<le> at_pos ?vs ?pos \<and> at_pos ?vs ?pos \<le> of_int (?vs ! nat \<lceil>?pos\<rceil>)"
    by (rule at_pos_bounds) (use vs pos in auto)
  moreover have "coalesce (percentile_cont p xs) 0 = at_pos ?vs ?pos"
    using False by (simp add: percentile_cont_at_pos coalesce_def)
  ultimately show ?thesis
    using small [OF idx(1)] small [OF idx(2)] by linarith
qed

lemma epoch_span_gap:
  assumes "g \<noteq> []" and "epoch_span g \<noteq> 0"
  shows "1 / 10 ^ 6 \<le> epoch_span g"
proof -
  have "Min (row_micros ` set g) \<le> Max (row_micros ` set g)"
    using assms(1) by (meson List.finite_set Max_ge Min_in finite_imageI image_is_empty set_empty)
  with assms(2) have "1 \<le> Max (row_micros ` set g) - Min (row_micros ` set g)"
    by (auto simp: epoch_span_def)
  then have "rat_of_int 1 \<le> of_int (Max (row_micros ` set g) - Min (row_micros ` set g))"
    by (simp only: of_int_le_iff)
  then show ?thesis by (simp add: epoch_span_def)
qed

lemma tps_small:
  assumes "sane_numeric pgnum" and "g \<noteq> []" and "length g \<le> 2 ^ 53"
  shows "0 \<le> ag_tps (aggregate_of pgnum k g) \<and> ag_tps (aggregate_of pgnum k g) \<le> 2 ^ 100"
proof (cases "epoch_span g = 0")
  case True
  then show ?thesis by (simp add: aggregate_of_def nullif0_def coalesce_def)
next
  case False
  let ?c = "rat_of_nat (count_where good_row g)"
  note gap = epoch_span_gap [OF assms(2) False]
  have "count_where good_row g \<le> 2 ^ 53"
    using order_trans [OF length_filter_le [of good_row g] assms(3)] by (simp add: count_where_def)
  then have "?c \<le> of_nat (2 ^ 53)" unfolding of_nat_le_iff .
  then have c: "0 \<le> ?c" "?c \<le> 2 ^ 53" by auto
  have "?c / epoch_span g \<le> ?c / (1 / 10 ^ 6)"
    using gap c by (intro divide_left_mono) auto
  also have "\<dots> \<le> 2 ^ 53 * 10 ^ 6" using c by simp
  finally have "0 \<le> ?c / epoch_span g" "?c / epoch_span g \<le> 2 ^ 53 * 10 ^ 6" using gap c by auto
  then have "0 \<le> pgnum (?c / epoch_span g) \<and> pgnum (?c / epoch_span g) \<le> 2 ^ 53 * 10 ^ 6 + 1"
    using assms(1) unfolding sane_numeric_def by (meson add_right_mono order_trans)
  moreover have "(2 :: rat) ^ 53 * 10 ^ 6 + 1 \<le> 2 ^ 100" by simp
  ultimately show ?thesis
    using False by (auto simp: aggregate_of_def nullif0_def coalesce_def)
qed

text \<open>What the rest of the section needs of the table.\<close>

definition sane_table :: "db_row list \<Rightarrow> bool" where
  "sane_table rows \<longleftrightarrow> list_all sound_row rows \<and> small_ints (map row_latency_ms rows) \<and> length rows \<le> 2 ^ 53"

lemma count_where_mono:
  "(\<And>r. r \<in> set g \<Longrightarrow> P r \<Longrightarrow> Q r) \<Longrightarrow> count_where P g \<le> count_where Q g"
  by (induction g) (auto simp: count_where_def le_SucI)

lemma aggregate_sane:
  assumes "sane_numeric pgnum" and "sane_table g" and "g \<noteq> []"
  shows "sane_aggregate (aggregate_of pgnum k g)"
proof -
  have len: "length g \<le> 2 ^ 53" and sound: "list_all sound_row g"
    using assms(2) by (auto simp: sane_table_def)
  have lat: "small_ints (good_latencies g)"
    using assms(2) by (auto simp: sane_table_def small_ints_def good_latencies_def)
  have lat_len: "length (good_latencies g) \<le> 2 ^ 53"
    using order_trans [OF length_filter_le [of good_row g] len] by (simp add: good_latencies_def)
  have "count_where row_is_correct g \<le> count_where row_is_successful g"
    using sound by (intro count_where_mono) (auto simp: sound_row_def list_all_iff)
  moreover have "count_where row_is_successful g \<le> length g" by (simp add: count_where_def)
  ultimately show ?thesis
    using tps_small [OF assms(1,3) len, of k] len
      percentile_small [OF lat lat_len, of "50 / 100"] percentile_small [OF lat lat_len, of "90 / 100"]
      percentile_small [OF lat lat_len, of "99 / 100"]
    by (simp add: sane_aggregate_def aggregate_of_def)
qed

lemma sane_table_filter: "sane_table rows \<Longrightarrow> sane_table (filter P rows)"
  using order_trans [OF length_filter_le [of P rows]]
  by (auto simp: sane_table_def list_all_iff small_ints_def)

lemma scoring_query_cases:
  assumes "a \<in> set (scoring_query pgnum now rows)"
  obtains k where "a = aggregate_of pgnum k (filter (\<lambda>r. row_key r = k) (windowed now rows))"
    and "1 < length (filter (\<lambda>r. row_key r = k) (windowed now rows))"
  using assms by (auto simp: scoring_query_def Let_def)

lemma scoring_query_sane:
  assumes "sane_numeric pgnum" and "sane_table rows" and "a \<in> set (scoring_query pgnum now rows)"
  shows "sane_aggregate a \<and> 1 < ag_total a"
  using assms(3)
proof (rule scoring_query_cases)
  fix k
  let ?g = "filter (\<lambda>r. row_key r = k) (windowed now rows)"
  assume a: "a = aggregate_of pgnum k ?g" and two: "1 < length ?g"
  have "sane_table ?g" using assms(2) by (simp add: windowed_def sane_table_filter)
  moreover have "?g \<noteq> []" using two by auto
  ultimately show ?thesis
    using aggregate_sane [OF assms(1), of ?g k] a two by (simp add: aggregate_of_def)
qed

text \<open>A finite number within bounds.\<close>

definition well_scored :: "leaderboard_stats \<Rightarrow> bool" where
  "well_scored s \<longleftrightarrow> unit_f64 (ls_ErrorRate s) \<and> unit_f64 (ls_CorrectnessRate s) \<and>
     (case (ls_TPS s, ls_Score s) of
        (Fin t, Fin sc) \<Rightarrow> 0 \<le> t \<and> 0 \<le> sc \<and> sc \<le> f64r (t * 100)
      | _ \<Rightarrow> False) \<and> stats_json s \<noteq> None"

lemma stats_of_well_scored:
  assumes a: "sane_aggregate a" and t: "0 < ag_total a"
  shows "well_scored (stats_of a)"
proof -
  have q: "0 \<le> f64r (of_nat (ag_success a) / of_nat (ag_total a)) \<and>
      f64r (of_nat (ag_success a) / of_nat (ag_total a)) \<le> 1"
    using a by (intro rate_range) (auto simp: sane_aggregate_def)
  show ?thesis
    using complement_f64 [of "f64r (of_nat (ag_success a) / of_nat (ag_total a))"] q
      factors_range [OF a] tps_range(1) [OF a] score_range [OF a]
    by (simp add: well_scored_def stats_of_values [OF a t] unit_f64_def stats_json_def)
qed

text \<open>
  C9 (bounds). Every entry of the board has an error rate and a correctness rate between 0 and
  1 and a finite score between 0 and a hundred times its throughput, and can be marshalled: no
  division by zero, infinity or NaN reaches the board.
\<close>

theorem board_entries_well_scored:
  assumes "sane_numeric pgnum" and "sane_table rows"
  shows "list_all well_scored (map stats_of (scoring_query pgnum now rows))"
  using scoring_query_sane [OF assms] stats_of_well_scored
  by (fastforce simp: list_all_iff)

definition sample_rows :: "db_row list" where
  "sample_rows =
     [ok_row, ok_row\<lparr>row_time := 2000000000, row_order_id := ''ORD-2'', row_latency_ms := 6\<rparr>]"

lemma sample_rows_sane: "sane_table sample_rows"
  by (simp add: sane_table_def sample_rows_def ok_row_def sound_row_def small_ints_def)

theorem board_entries_well_scored_witness:
  "list_all well_scored (map stats_of (scoring_query (\<lambda>x. x) 0 sample_rows))"
  by (rule board_entries_well_scored) (simp_all add: sane_numeric_def sample_rows_sane)

text \<open>
  C32 (functional). For a submission all of whose orders succeeded and were correct, the score is
  the documented \<open>TPS * 100 / P90\<close> with the latency taken as at least 1 ms; the two
  rates then multiply by exactly 1.
\<close>

theorem faultless_submission_score:
  assumes "sane_aggregate a" and "0 < ag_total a"
    and "ag_success a = ag_total a" and "ag_correct a = ag_total a"
  shows "ls_Score (stats_of a) = f64_div (f64_mul (ls_TPS (stats_of a)) (Fin 100))
    (if f64_less (ls_P90Latency (stats_of a)) (Fin 1) then Fin 1 else ls_P90Latency (stats_of a))"
proof -
  have one: "success_factor a = 1" "correct_factor a = 1"
    using assms(2-4) by (simp_all add: success_factor_def correct_factor_def b64.rd_1 b64.rd_0)
  note T = tps_range [OF assms(1)]
  have "f64r (ag_tps a) * 100 \<le> 2 ^ 107" using T(2) by simp
  then have m: "f64_mul (Fin (f64r (ag_tps a))) (Fin 100) = Fin (f64r (f64r (ag_tps a) * 100))"
    using T(1) by (simp add: to_f64_small [where i = 107])
  have "f64_div (Fin (f64r (f64r (ag_tps a) * 100))) (Fin (eff_p90 a)) = Fin (base_score a)"
    using f64_grow [of "f64r (f64r (ag_tps a) * 100)" 107 "eff_p90 a"] T
    by (simp add: base_score_def eff_p90_ge_1 b64.rd_idem)
  with m show ?thesis
    by (simp add: stats_of_values [OF assms(1,2)] one eff_p90_def base_score_def b64.rd_idem
        split: if_splits)
qed

theorem faultless_submission_score_witness:
  "ls_Score (stats_of \<lparr>ag_run_id = ''R'', ag_submission_id = ''S'', ag_tps = 20, ag_p50 = 4, ag_p90 = 5,
      ag_p99 = 6, ag_total = 3, ag_success = 3, ag_correct = 3\<rparr>) =
   f64_div (f64_mul (ls_TPS (stats_of \<lparr>ag_run_id = ''R'', ag_submission_id = ''S'', ag_tps = 20, ag_p50 = 4,
      ag_p90 = 5, ag_p99 = 6, ag_total = 3, ag_success = 3, ag_correct = 3\<rparr>)) (Fin 100))
    (if f64_less (ls_P90Latency (stats_of \<lparr>ag_run_id = ''R'', ag_submission_id = ''S'', ag_tps = 20,
      ag_p50 = 4, ag_p90 = 5, ag_p99 = 6, ag_total = 3, ag_success = 3, ag_correct = 3\<rparr>)) (Fin 1) then Fin 1
     else ls_P90Latency (stats_of \<lparr>ag_run_id = ''R'', ag_submission_id = ''S'', ag_tps = 20, ag_p50 = 4,
      ag_p90 = 5, ag_p99 = 6, ag_total = 3, ag_success = 3, ag_correct = 3\<rparr>))"
  by (rule faultless_submission_score) (simp_all add: sane_aggregate_def)

end
