(* ===== verification/Leader.thy ===== *)
theory Leader
  imports ScoringProps
begin

text \<open>
  The loop of \<open>runScoringEngine\<close> (\<open>cmd/leaderboard/scoring.go\<close>): the leader lock taken with
  \<open>SetNX\<close> in Redis, the query, the ranked board, the publication. Redis is outside the
  repository: its \<open>SetNX\<close> with an expiry is a parameter of the model, with its documented
  behaviour as the locale \<open>lease\<close>; \<open>setnx_store\<close> is a concrete store that has it.
\<close>

section \<open>The lock\<close>

text \<open>
  \<open>setnx r t\<close> asks at time \<open>t\<close> (ms): whether the key was set, and the store after. \<open>held r t\<close>:
  the key exists. It is set exactly when it did not exist, and lives five seconds.
\<close>

definition lock_ttl :: int where
  "lock_ttl = 5000"

locale lease =
  fixes setnx :: "'r \<Rightarrow> int \<Rightarrow> bool \<times> 'r"
    and held :: "'r \<Rightarrow> int \<Rightarrow> bool"
  assumes grant_iff: "fst (setnx r t) \<longleftrightarrow> \<not> held r t"
    and granted_held: "\<not> held r t \<Longrightarrow> t \<le> u \<Longrightarrow> held (snd (setnx r t)) u \<longleftrightarrow> u < t + lock_ttl"
    and refused_same: "held r t \<Longrightarrow> snd (setnx r t) = r"
begin

text \<open>Until five seconds after a grant, every request is refused and changes nothing.\<close>

lemma refused_while_held:
  "\<not> held r t \<Longrightarrow> t \<le> u \<Longrightarrow> u < t + lock_ttl \<Longrightarrow>
   \<not> fst (setnx (snd (setnx r t)) u) \<and> snd (setnx (snd (setnx r t)) u) = snd (setnx r t)"
  by (simp add: grant_iff granted_held refused_same)

end

text \<open>A store with one key that holds its expiry time.\<close>

definition setnx_store :: "int option \<Rightarrow> int \<Rightarrow> bool \<times> int option" where
  "setnx_store r t =
     (case r of
        Some e \<Rightarrow> if t < e then (False, r) else (True, Some (t + lock_ttl))
      | None \<Rightarrow> (True, Some (t + lock_ttl)))"

definition store_held :: "int option \<Rightarrow> int \<Rightarrow> bool" where
  "store_held r t = (case r of Some e \<Rightarrow> t < e | None \<Rightarrow> False)"

interpretation redis: lease setnx_store store_held
  by unfold_locales (auto simp: setnx_store_def store_held_def split: option.splits if_splits)

section \<open>One tick\<close>

text \<open>
  How the calls of one tick end. \<open>te_rows\<close> is how many rows the iteration delivers before it
  ends (\<open>rows.Next\<close> also returns false on an error, and \<open>rows.Err\<close> is not asked). A \<open>SetNX\<close> that
  returns an error may have reached Redis and set the lock, or not.
\<close>

record tick_env =
  te_now :: int
  te_setnx_error :: bool
  te_setnx_sent :: bool
  te_query :: bool
  te_rows :: nat
  te_scan :: "aggregate \<Rightarrow> bool"
  te_publish :: bool

datatype tick_result =
    LockError | NotLeader | QueryFailed | EmptyBoard | MarshalFailed
  | PublishFailed string
  | Published string

definition score_board :: "(rat \<Rightarrow> rat) \<Rightarrow> tick_env \<Rightarrow> db_row list \<Rightarrow> leaderboard_stats list" where
  "score_board pgnum env rows =
     (let answer = take (te_rows env) (scoring_query pgnum (te_now env * 1000) rows)
      in sort_slice ranks_before (map stats_of (filter (te_scan env) answer)))"

definition scoring_tick ::
    "('r \<Rightarrow> int \<Rightarrow> bool \<times> 'r) \<Rightarrow> (rat \<Rightarrow> rat) \<Rightarrow> tick_env \<Rightarrow> db_row list \<Rightarrow> 'r \<Rightarrow> tick_result \<times> 'r" where
  "scoring_tick setnx pgnum env rows r =
     (if te_setnx_error env \<and> \<not> te_setnx_sent env then (LockError, r)
      else let (acquired, r1) = setnx r (te_now env)
      in if te_setnx_error env then (LockError, r1)
         else if \<not> acquired then (NotLeader, r1)
         else if \<not> te_query env then (QueryFailed, r1)
         else let board = score_board pgnum env rows
              in if length board = 0 then (EmptyBoard, r1)
                 else (case board_json board of
                         None \<Rightarrow> (MarshalFailed, r1)
                       | Some payload \<Rightarrow>
                           (if te_publish env then Published payload else PublishFailed payload, r1)))"

text \<open>The ticks of all replicas, in the order they reach Redis.\<close>

fun scoring_run ::
    "('r \<Rightarrow> int \<Rightarrow> bool \<times> 'r) \<Rightarrow> (rat \<Rightarrow> rat) \<Rightarrow> db_row list \<Rightarrow> 'r \<Rightarrow> tick_env list \<Rightarrow> tick_result list" where
  "scoring_run setnx pgnum rows r [] = []"
| "scoring_run setnx pgnum rows r (env # envs) =
     (let (res, r1) = scoring_tick setnx pgnum env rows r
      in res # scoring_run setnx pgnum rows r1 envs)"

definition scored :: "tick_result \<Rightarrow> bool" where
  "scored res \<longleftrightarrow> res \<noteq> LockError \<and> res \<noteq> NotLeader"

lemma scoring_tick_store: "snd (scoring_tick setnx pgnum env rows r) \<in> {r, snd (setnx r (te_now env))}"
  by (auto simp: scoring_tick_def Let_def split: prod.split option.split)

lemma scored_store:
  "scored (fst (scoring_tick setnx pgnum env rows r)) \<or> \<not> te_setnx_error env \<Longrightarrow>
   snd (scoring_tick setnx pgnum env rows r) = snd (setnx r (te_now env))"
  by (auto simp: scoring_tick_def scored_def Let_def split: prod.splits option.splits if_splits)

lemma scored_granted: "scored (fst (scoring_tick setnx pgnum env rows r)) \<Longrightarrow> fst (setnx r (te_now env))"
  by (auto simp: scoring_tick_def scored_def Let_def split: prod.splits if_splits)

lemma scored_iff:
  "\<not> te_setnx_error env \<Longrightarrow>
   scored (fst (scoring_tick setnx pgnum env rows r)) \<longleftrightarrow> fst (setnx r (te_now env))"
  by (auto simp: scoring_tick_def scored_def Let_def split: prod.splits option.splits)

section \<open>The board\<close>

lemma strict_weak_ranks:
  "(\<And>s. s \<in> A \<Longrightarrow> well_scored s) \<Longrightarrow> strict_weak ranks_before A"
proof -
  assume A: "\<And>s. s \<in> A \<Longrightarrow> well_scored s"
  have fin: "\<exists>x. ls_Score s = Fin x" if "s \<in> A" for s
    using A [OF that] by (auto simp: well_scored_def split: f64.splits)
  show ?thesis
    unfolding strict_weak_def
  proof (intro conjI ballI impI)
    fix x y assume "x \<in> A" "y \<in> A" and l: "ranks_before x y"
    then obtain a b where "ls_Score x = Fin a" "ls_Score y = Fin b" using fin by blast
    with l show "\<not> ranks_before y x" by (simp add: ranks_before_def)
  next
    fix x y z assume "x \<in> A" "y \<in> A" "z \<in> A" and n: "\<not> ranks_before x y" "\<not> ranks_before y z"
    then obtain a b c where "ls_Score x = Fin a" "ls_Score y = Fin b" "ls_Score z = Fin c" using fin by metis
    with n show "\<not> ranks_before x z" by (simp add: ranks_before_def)
  qed
qed

lemma score_board_well_scored:
  assumes "sane_numeric pgnum" and "sane_table rows" and "s \<in> set (score_board pgnum env rows)"
  shows "well_scored s"
proof -
  obtain a where "a \<in> set (scoring_query pgnum (te_now env * 1000) rows)" "s = stats_of a"
    using assms(3) by (auto simp: score_board_def Let_def dest: in_set_takeD)
  with scoring_query_sane [OF assms(1,2)] show ?thesis by (metis less_one less_trans not_gr_zero stats_of_well_scored)
qed

text \<open>
  C15 (functional). What a tick ranks is exactly the statistics of the delivered rows of the
  query, no entry lost, added or changed, in descending order of the score.
\<close>

theorem board_ranked:
  assumes "sane_numeric pgnum" and "sane_table rows"
  shows "mset (score_board pgnum env rows) =
      image_mset stats_of (mset (filter (te_scan env) (take (te_rows env) (scoring_query pgnum (te_now env * 1000) rows)))) \<and>
    sorted_wrt (\<lambda>a b. \<not> f64_less (ls_Score a) (ls_Score b)) (score_board pgnum env rows)"
proof -
  let ?xs = "map stats_of (filter (te_scan env) (take (te_rows env) (scoring_query pgnum (te_now env * 1000) rows)))"
  have "strict_weak ranks_before (set ?xs)"
    using score_board_well_scored [OF assms, of _ env] by (intro strict_weak_ranks) (simp add: score_board_def)
  from sl.sorter_sorted [OF this] show ?thesis
    by (simp add: score_board_def ranks_before_def)
qed

definition quiet_tick :: "int \<Rightarrow> tick_env" where
  "quiet_tick t = \<lparr>te_now = t, te_setnx_error = False, te_setnx_sent = True, te_query = True, te_rows = 1000,
     te_scan = (\<lambda>_. True), te_publish = True\<rparr>"

lemma quiet_tick_simps [simp]:
  "te_now (quiet_tick t) = t" "\<not> te_setnx_error (quiet_tick t)" "te_query (quiet_tick t)"
  "te_rows (quiet_tick t) = 1000" "te_scan (quiet_tick t) a" "te_publish (quiet_tick t)"
  by (simp_all add: quiet_tick_def)

theorem board_ranked_witness:
  "sorted_wrt (\<lambda>a b. \<not> f64_less (ls_Score a) (ls_Score b)) (score_board (\<lambda>x. x) (quiet_tick 0) sample_rows)"
  by (rule conjunct2, rule board_ranked) (simp_all add: sane_numeric_def sample_rows_sane)

lemma board_json_defined: "list_all well_scored board \<Longrightarrow> board_json board \<noteq> None"
  by (induction board) (auto simp: board_json_def well_scored_def)

lemma leader_gets_through:
  assumes "sane_numeric pgnum" and "sane_table rows" and "fst (setnx r (te_now env))"
    and "\<not> te_setnx_error env" and "te_query env" and "te_publish env"
    and "score_board pgnum env rows \<noteq> []"
  shows "\<exists>payload. board_json (score_board pgnum env rows) = Some payload \<and>
    fst (scoring_tick setnx pgnum env rows r) = Published payload"
proof -
  have "list_all well_scored (score_board pgnum env rows)"
    using score_board_well_scored [OF assms(1,2)] by (simp add: list_all_iff)
  then obtain payload where "board_json (score_board pgnum env rows) = Some payload"
    using board_json_defined by blast
  with assms(3-7) show ?thesis by (auto simp: scoring_tick_def Let_def split: prod.split)
qed

text \<open>
  A tick that gets the lock, whose query and publication work, publishes a board
  whenever the query delivers a row that scans: marshalling never stops it.
\<close>

lemma leader_publishes:
  assumes "sane_numeric pgnum" and "sane_table rows" and "fst (setnx r (te_now env))"
    and "\<not> te_setnx_error env" and "te_query env" and "te_publish env"
    and "score_board pgnum env rows \<noteq> []"
  shows "\<exists>payload. board_json (score_board pgnum env rows) = Some payload \<and>
    fst (scoring_tick setnx pgnum env rows r) = Published payload"
  using assms by (rule leader_gets_through)

section \<open>How often the board is scored\<close>

text \<open>Each pair of ticks, the later one reaching Redis no earlier.\<close>

abbreviation in_order :: "tick_env list \<Rightarrow> bool" where
  "in_order envs \<equiv> sorted_wrt (\<lambda>a b. te_now a \<le> te_now b) envs"

lemma run_Cons_ok:
  "\<not> te_setnx_error env \<Longrightarrow>
   map scored (scoring_run setnx pgnum rows r (env # envs)) =
   fst (setnx r (te_now env)) # map scored (scoring_run setnx pgnum rows (snd (setnx r (te_now env))) envs)"
  using scored_store [of setnx pgnum env rows r] scored_iff [of env setnx pgnum rows r]
  by (cases "scoring_tick setnx pgnum env rows r") simp

lemma upt_three: "map f [0..<length (a # b # c # xs)] = f 0 # f 1 # f 2 # map (\<lambda>k. f (k + 3)) [0..<length xs]"
  by (simp add: map_upt_Suc eval_nat_numeral del: upt_Suc)

context lease
begin

lemma scored_after_expiry:
  "in_order envs \<Longrightarrow> (\<And>u. t \<le> u \<Longrightarrow> held r u \<longleftrightarrow> u < e) \<Longrightarrow>
    (\<And>env. env \<in> set envs \<Longrightarrow> t \<le> te_now env) \<Longrightarrow> j < length envs \<Longrightarrow>
    scored (scoring_run setnx pgnum rows r envs ! j) \<Longrightarrow> e \<le> te_now (envs ! j)"
proof (induction envs arbitrary: j)
  case Nil
  then show ?case by simp
next
  case (Cons env envs)
  have now: "held r (te_now env) \<longleftrightarrow> te_now env < e" using Cons.prems(2,3) by simp
  obtain res r1 where tick: "scoring_tick setnx pgnum env rows r = (res, r1)"
    by (cases "scoring_tick setnx pgnum env rows r")
  have r1: "r1 \<in> {r, snd (setnx r (te_now env))}"
    using scoring_tick_store [of setnx pgnum env rows r] tick by simp
  show ?case
  proof (cases j)
    case 0
    with Cons.prems(5) tick have "fst (setnx r (te_now env))"
      using scored_granted [of setnx pgnum env rows r] by simp
    with now 0 show ?thesis by (simp add: grant_iff)
  next
    case (Suc k)
    with Cons.prems(1,4) have k: "k < length envs" "te_now env \<le> te_now (envs ! k)" by auto
    show ?thesis
    proof (cases "te_now env < e")
      case True
      with now r1 have "r1 = r" by (auto simp: refused_same)
      with Cons.IH [of k] Cons.prems Suc k tick show ?thesis by simp
    next
      case False
      with k Suc show ?thesis by simp
    qed
  qed
qed

lemma run_scores_apart:
  assumes "in_order envs"
    and "i < j" and "j < length envs"
    and "scored (scoring_run setnx pgnum rows r envs ! i)"
    and "scored (scoring_run setnx pgnum rows r envs ! j)"
  shows "te_now (envs ! i) + lock_ttl \<le> te_now (envs ! j)"
  using assms
proof (induction envs arbitrary: i j r)
  case Nil
  then show ?case by simp
next
  case (Cons env envs)
  obtain res r1 where tick: "scoring_tick setnx pgnum env rows r = (res, r1)"
    by (cases "scoring_tick setnx pgnum env rows r")
  obtain k where j: "j = Suc k" using Cons.prems(2) by (cases j) auto
  show ?case
  proof (cases i)
    case 0
    with Cons.prems(4) tick have g: "\<not> held r (te_now env)"
      using scored_granted [of setnx pgnum env rows r] by (simp add: grant_iff)
    have r1: "r1 = snd (setnx r (te_now env))"
      using scored_store [of setnx pgnum env rows r] Cons.prems(4) tick 0 by simp
    have "te_now env + lock_ttl \<le> te_now (envs ! k)"
    proof (rule scored_after_expiry [where t = "te_now env"])
      show "held r1 u \<longleftrightarrow> u < te_now env + lock_ttl" if "te_now env \<le> u" for u
        unfolding r1 by (rule granted_held [OF g that])
    qed (use Cons.prems j tick in auto)
    with 0 j show ?thesis by simp
  next
    case (Suc m)
    with Cons.IH [of m k r1] Cons.prems j tick show ?thesis by simp
  qed
qed

text \<open>Three ticks, two seconds apart, from a free lock: granted, refused, refused, free again.\<close>

lemma three_ticks:
  assumes free: "\<not> held r t"
  shows "fst (setnx r t)" and "\<not> fst (setnx (snd (setnx r t)) (t + 2000))"
    and "snd (setnx (snd (setnx r t)) (t + 2000)) = snd (setnx r t)"
    and "\<not> fst (setnx (snd (setnx r t)) (t + 4000))"
    and "snd (setnx (snd (setnx r t)) (t + 4000)) = snd (setnx r t)"
    and "\<not> held (snd (setnx r t)) (t + 6000)"
  using free granted_held [OF free, of "t + 2000"] granted_held [OF free, of "t + 4000"]
    granted_held [OF free, of "t + 6000"]
  by (simp_all add: grant_iff refused_same lock_ttl_def)

lemma run_every_third:
  "list_all (\<lambda>env. \<not> te_setnx_error env) envs \<Longrightarrow>
    map te_now envs = map (\<lambda>k. t + 2000 * int k) [0..<length envs] \<Longrightarrow> \<not> held r t \<Longrightarrow>
    map scored (scoring_run setnx pgnum rows r envs) = map (\<lambda>k. k mod 3 = 0) [0..<length envs]"
proof (induction envs arbitrary: r t rule: length_induct)
  case (1 envs)
  note T = three_ticks [OF "1.prems"(3)]
  consider "envs = []" | a where "envs = [a]" | a b where "envs = [a, b]"
    | a b c xs where "envs = a # b # c # xs"
    by (metis list.exhaust)
  then show ?case
  proof cases
    case 1
    then show ?thesis by simp
  next
    case (2 a)
    with "1.prems" T show ?thesis by (simp add: run_Cons_ok del: scoring_run.simps(2))
  next
    case (3 a b)
    with "1.prems" T show ?thesis by (simp add: run_Cons_ok del: scoring_run.simps(2))
  next
    case (4 a b c xs)
    let ?r = "snd (setnx r t)"
    have now: "te_now a = t" "te_now b = t + 2000" "te_now c = t + 4000"
      "map te_now xs = map (\<lambda>k. t + 6000 + 2000 * int k) [0..<length xs]"
      using "1.prems"(2) unfolding 4 upt_three by (simp_all add: algebra_simps)
    have "map scored (scoring_run setnx pgnum rows ?r xs) = map (\<lambda>k. k mod 3 = 0) [0..<length xs]"
      by (rule "1.IH" [rule_format]) (use 4 "1.prems"(1) now(4) T(6) in simp_all)
    with "1.prems"(1) now T show ?thesis
      unfolding 4 upt_three by (simp add: run_Cons_ok del: scoring_run.simps(2))
  qed
qed

end

text \<open>
  C8 (safety). At most one replica scores in any five seconds: whatever the number of
  replicas and however their ticks interleave, two ticks that got past the lock are at least
  the lifetime of the lock apart.
\<close>

theorem scores_apart:
  assumes "lease setnx held" and "in_order envs" and "i < j" and "j < length envs"
    and "scored (scoring_run setnx pgnum rows r envs ! i)"
    and "scored (scoring_run setnx pgnum rows r envs ! j)"
  shows "te_now (envs ! i) + lock_ttl \<le> te_now (envs ! j)"
  using assms by (rule lease.run_scores_apart)

theorem scores_apart_witness:
  "te_now ([quiet_tick 0, quiet_tick 2000, quiet_tick 6000] ! 0) + lock_ttl
     \<le> te_now ([quiet_tick 0, quiet_tick 2000, quiet_tick 6000] ! 2)"
  by (rule scores_apart [where setnx = setnx_store and held = store_held and r = None and
        pgnum = "\<lambda>x. x" and rows = "[]"])
    (simp_all add: redis.lease_axioms quiet_tick_def scoring_tick_def setnx_store_def lock_ttl_def
      score_board_def scoring_query_def windowed_def scored_def)

text \<open>
  C33 (functional). Although the ticker fires every two seconds and ARCHITECTURE.md promises one
  scoring per tick, the lock is never released: ticks two seconds apart score every third
  time, once in six seconds, for one replica and any store with the documented expiry.
\<close>

theorem scored_every_third_tick:
  assumes "lease setnx held" and "list_all (\<lambda>env. \<not> te_setnx_error env) envs"
    and "map te_now envs = map (\<lambda>k. t + 2000 * int k) [0..<length envs]" and "\<not> held r t"
  shows "map scored (scoring_run setnx pgnum rows r envs) = map (\<lambda>k. k mod 3 = 0) [0..<length envs]"
  using assms by (rule lease.run_every_third)

theorem scored_every_third_tick_witness:
  "map scored (scoring_run setnx_store (\<lambda>x. x) [] None (map quiet_tick [0, 2000, 4000, 6000])) =
     [True, False, False, True]"
  using scored_every_third_tick [OF redis.lease_axioms, of "map quiet_tick [0, 2000, 4000, 6000]" 0 None
      "\<lambda>x. x" "[]"]
  by (simp add: store_held_def upt_rec)

section \<open>A query cut short\<close>

text \<open>
  Whether the iteration over the rows ended because there were no more or because of
  an error is not checked, so a tick whose query breaks off after \<open>n\<close> rows publishes a board
  with at most \<open>n\<close> submissions as if it were complete.
\<close>

lemma truncated_board_published:
  "fst (scoring_tick setnx pgnum env rows r) = Published payload \<Longrightarrow>
   board_json (score_board pgnum env rows) = Some payload \<and>
   length (score_board pgnum env rows) \<le> te_rows env"
  by (auto simp: scoring_tick_def score_board_def sl.sorter_length Let_def
      split: prod.splits if_splits option.splits intro: order_trans [OF length_filter_le])

end
