(* ===== verification/Services.thy ===== *)
theory Services
  imports FleetRun FleetWorker Sandbox
begin

text \<open>
  What the \<open>main\<close> functions set up: the Kafka writer of the fleet and the reader of the telemetry
  service with the topic between them, and the routes of the HTTP servers. Listening, signals and
  shutdown are not modelled; a path is one that \<open>ServeMux\<close> does not redirect.
\<close>

section \<open>The topic\<close>

definition redpandaHost :: "environ \<Rightarrow> string" where
  "redpandaHost env = (let h = getenv env ''REDPANDA_HOST'' in if h = [] then ''localhost:9092'' else h)"

text \<open>
  The writer; the timeouts are in nanoseconds. \<open>RequiredAcks\<close> is not set, so it has Go's zero value, which
  is \<open>RequireNone\<close>: a write is not acknowledged by the broker.
\<close>

record kafka_writer =
  kw_Addr :: string
  kw_Topic :: string
  kw_Balancer :: string
  kw_Async :: bool
  kw_MaxAttempts :: nat
  kw_WriteTimeout :: int
  kw_ReadTimeout :: int
  kw_RequiredAcks :: int

text \<open>An error of \<open>ensureTopic\<close> is a warning only.\<close>

definition fleet_main :: "environ \<Rightarrow> kafka_cluster \<Rightarrow> kafka_cluster \<times> kafka_writer \<times> topic_error option" where
  "fleet_main env k =
     (let host = redpandaHost env; (k1, warning) = ensureTopic ''order-events'' 4 k
      in (k1, \<lparr>kw_Addr = host, kw_Topic = ''order-events'', kw_Balancer = ''LeastBytes'', kw_Async = False,
            kw_MaxAttempts = writeMaxAttempts, kw_WriteTimeout = 10 * 10 ^ 9, kw_ReadTimeout = 10 * 10 ^ 9,
            kw_RequiredAcks = 0\<rparr>, warning))"

record kafka_reader =
  kr_Brokers :: "string list"
  kr_GroupID :: string
  kr_Topic :: string
  kr_MinBytes :: nat
  kr_MaxBytes :: nat

definition telemetry_reader :: "environ \<Rightarrow> kafka_reader" where
  "telemetry_reader env =
     (let host = redpandaHost env
      in \<lparr>kr_Brokers = [host], kr_GroupID = ''telemetry-group'', kr_Topic = ''order-events'',
          kr_MinBytes = 10000, kr_MaxBytes = 10000000\<rparr>)"

text \<open>The fleet writes where the telemetry service reads; no start drops or repartitions a topic.\<close>

lemma same_topic:
  "fleet_main env k = (k', w, warning) \<Longrightarrow>
   kr_Brokers (telemetry_reader env) = [kw_Addr w] \<and> kr_Topic (telemetry_reader env) = kw_Topic w \<and>
   map_of (kf_topics k) \<subseteq>\<^sub>m map_of (kf_topics k')"
  by (auto simp: fleet_main_def telemetry_reader_def ensureTopic_def Let_def map_le_def
      split: if_splits option.splits prod.splits)

lemma topic_created:
  "fleet_main env k = (k', w, None) \<Longrightarrow> kf_create k (kw_Topic w) \<Longrightarrow>
   map_of (kf_topics k') (kw_Topic w) \<noteq> None"
  by (auto simp: fleet_main_def ensureTopic_def Let_def split: if_splits option.splits prod.splits)

section \<open>Routes\<close>

definition not_found :: http_response where
  "not_found = http_error ''404 page not found'' 404"

definition status_ok :: http_response where
  "status_ok = \<lparr>hw_Status = 200, hw_Body = ''{\"status\":\"ok\"}''\<rparr>"

definition fleet_run_mux :: "int \<Rightarrow> string \<Rightarrow> http_request \<Rightarrow> http_response \<times> run_request option" where
  "fleet_run_mux now path r = (if path = ''/run'' then runHandler now r else (not_found, None))"

definition fleet_health_mux :: "string \<Rightarrow> http_response" where
  "fleet_health_mux path =
     (if path = ''/health'' \<or> path = ''/ready'' then \<lparr>hw_Status = 200, hw_Body = []\<rparr> else not_found)"

definition telemetry_mux :: "string \<Rightarrow> http_response" where
  "telemetry_mux path = (if path = ''/health'' then status_ok else not_found)"

datatype lb_route = LbHealth http_response | LbSocket | LbPage string

definition leaderboard_mux :: "string \<Rightarrow> lb_route" where
  "leaderboard_mux path =
     (if path = ''/health'' then LbHealth status_ok
      else if path = ''/ws'' then LbSocket
      else LbPage ''index.html'')"

datatype sandbox_answer = Uploaded upload_reply | Answered http_response

text \<open>\<open>ping\<close> is whether the Docker daemon answers.\<close>

definition sandbox_mux ::
    "'d docker_api \<Rightarrow> outside \<Rightarrow> bool \<Rightarrow> string \<Rightarrow> upload \<Rightarrow> 'd world \<Rightarrow> 'd world \<times> sandbox_answer" where
  "sandbox_mux api os ping path r w =
     (if path = ''/upload'' then map_prod id Uploaded (uploadHandler api os r w)
      else if path = ''/health'' then (w, Answered status_ok)
      else if path = ''/ready'' then
        (w, Answered (if ping then \<lparr>hw_Status = 200, hw_Body = ''{\"status\":\"ready\"}''\<rparr>
                      else http_error ''{\"error\":\"docker_down\"}'' 503))
      else (w, Answered not_found))"

end
