(* ===== verification/ValidatorProps.thy ===== *)
theory ValidatorProps
  imports ResponseJson
begin

text \<open>
  What \<open>ValidateOrder\<close> promises: the rules a correct response obeys, stated without the
  code's branches (\<open>obeys\<close>), and that the verdict is exactly that; rejection changes nothing;
  the invariant of the book over any run; independence of the order in which Go ranges over
  its maps; and the frame of one call, which is where the book departs from a matching engine.
\<close>

section \<open>The rules\<close>

text \<open>No resting order on the other side has a better price than the execution.\<close>

definition best_price_respected :: "order_book \<Rightarrow> target_response \<Rightarrow> bool" where
  "best_price_respected ob resp \<longleftrightarrow>
     (if tr_Side resp = ''BUY''
      then \<forall>a \<in> snd ` set (ob_asks ob). tr_ExecutionPrice resp \<le> le_price a
      else \<forall>b \<in> snd ` set (ob_bids ob). le_price b \<le> tr_ExecutionPrice resp)"

definition limit_respected :: "target_response \<Rightarrow> bool" where
  "limit_respected resp \<longleftrightarrow>
     (if tr_Side resp = ''BUY'' then tr_ExecutionPrice resp \<le> tr_Price resp
      else tr_Price resp \<le> tr_ExecutionPrice resp)"

definition obeys :: "order_book \<Rightarrow> target_response \<Rightarrow> bool" where
  "obeys ob resp \<longleftrightarrow>
     0 \<le> tr_FilledQty resp \<and> tr_FilledQty resp \<le> tr_OrderedQty resp \<and>
     tr_Side resp \<in> {''BUY'', ''SELL''} \<and>
     (tr_Type resp = ''LIMIT'' \<and> 0 < tr_FilledQty resp \<longrightarrow>
        limit_respected resp \<and> best_price_respected ob resp) \<and>
     (tr_Status resp = ''FILLED'' \<longrightarrow> 0 < tr_FilledQty resp) \<and>
     (tr_Status resp = ''REJECTED'' \<and> 0 < tr_OrderedQty resp \<longrightarrow> tr_FilledQty resp < tr_OrderedQty resp)"

lemma check_fill_obeys:
  "check_fill resp = None \<and>
   (tr_Type resp = ''LIMIT'' \<longrightarrow> 0 < tr_FilledQty resp \<longrightarrow> validatePriceTimePriority ob resp = None)
   \<longleftrightarrow> obeys ob resp"
  unfolding ptp_None_iff best_price_respected_def [symmetric]
  by (auto simp: check_fill_def obeys_def limit_respected_def)

text \<open>
  C1 (functional). An event is judged correct exactly when the HTTP exchange succeeded with the
  expected status, the body is a JSON response that names the order, and the response confirms
  the cancellation (CANCEL events) or obeys the trading rules (all others).
\<close>

theorem ValidateOrder_spec:
  "is_correct (snd (ValidateOrder ob ev)) \<longleftrightarrow>
     ev_IsSuccessful ev \<and> ev_StatusCode ev = ev_ExpectedStatus ev \<and>
     (\<exists>resp. decode_response (ev_ActualResponseBody ev) = Some resp \<and>
        tr_OrderID resp = ev_OrderID ev \<and>
        (if ev_Type ev = ''CANCEL'' then tr_Status resp = ''cancelled'' else obeys ob resp))"
  unfolding is_correct_def ValidateOrder_correct_iff cancels_def fills_def
  by (auto simp: check_fill_obeys [symmetric] split: option.splits)

text \<open>
  A rejected event leaves the book exactly as it was, whichever check rejected it.
\<close>

lemma rejected_keeps_book:
  "\<not> is_correct (snd (ValidateOrder ob ev)) \<Longrightarrow> fst (ValidateOrder ob ev) = ob"
  using ValidateOrder_cases [of ob ev] by (auto simp: is_correct_def)

section \<open>The book over a run\<close>

text \<open>
  C7 (invariant).  keeps distinct keys that name their entries,
  only positive resting quantities, and sequence numbers that are unique and bounded by the
  counter (as long as fewer than \<open>2^63\<close> events were judged).
\<close>

theorem run_book_ok:
  "int (length evs) < 2 ^ 63 \<Longrightarrow> book_ok (fst (validate_all NewOrderBook evs))"
  by (rule validate_all_book_ok) (simp_all add: NewOrderBook_def book_ok_new [unfolded NewOrderBook_def])

theorem run_book_ok_witness: "book_ok (fst (validate_all NewOrderBook [zero_event]))"
  by (rule run_book_ok) simp

section \<open>Range order\<close>

lemma betterAsks_mset: "mset (ob_asks ob) = mset (ob_asks ob') \<Longrightarrow> mset (betterAsks ob p) = mset (betterAsks ob' p)"
  by (simp add: betterAsks_def)

lemma betterBids_mset: "mset (ob_bids ob) = mset (ob_bids ob') \<Longrightarrow> mset (betterBids ob p) = mset (betterBids ob' p)"
  by (simp add: betterBids_def)

lemma set_better: "set (betterAsks ob p) \<subseteq> resting ob" "set (betterBids ob p) \<subseteq> resting ob"
  by (auto simp: betterAsks_def betterBids_def resting_def)

definition same_book :: "order_book \<Rightarrow> order_book \<Rightarrow> bool" where
  "same_book ob ob' \<longleftrightarrow> mset (ob_bids ob) = mset (ob_bids ob') \<and>
     mset (ob_asks ob) = mset (ob_asks ob') \<and> ob_sequence ob = ob_sequence ob'"

lemma ptp_same_book:
  assumes "book_ok ob" and "same_book ob ob'"
  shows "validatePriceTimePriority ob resp = validatePriceTimePriority ob' resp"
proof -
  let ?p = "tr_ExecutionPrice resp"
  have inj: "inj_on le_sequence (set (betterAsks ob ?p))" "inj_on le_sequence (set (betterBids ob ?p))"
    using assms(1) unfolding book_ok_def
    by (meson inj_on_subset set_better)+
  have m: "mset (betterAsks ob ?p) = mset (betterAsks ob' ?p)"
    "mset (betterBids ob ?p) = mset (betterBids ob' ?p)"
    using assms(2) by (auto simp: same_book_def intro: betterAsks_mset betterBids_mset)
  then have "length (betterAsks ob ?p) = length (betterAsks ob' ?p)"
    "length (betterBids ob ?p) = length (betterBids ob' ?p)"
    by (metis size_mset)+
  moreover have "sort_slice ask_before (betterAsks ob ?p) = sort_slice ask_before (betterAsks ob' ?p)"
    using m(1) inj(1) by (intro sl.sorter_perm_eq) (auto simp: strict_weak_ask decides_ask)
  moreover have "sort_slice bid_before (betterBids ob ?p) = sort_slice bid_before (betterBids ob' ?p)"
    using m(2) inj(2) by (intro sl.sorter_perm_eq) (auto simp: strict_weak_bid decides_bid)
  ultimately show ?thesis
    unfolding validatePriceTimePriority_def Let_def by presburger
qed

text \<open>
  C27 (equivalence). Go ranges over a map in an unspecified order and \<open>sort.Slice\<close> is not stable;
  neither shows: two representations of the same book give the same verdict, down to the
  entry the log line names.
\<close>

theorem verdict_range_order:
  "book_ok ob \<Longrightarrow> same_book ob ob' \<Longrightarrow> snd (ValidateOrder ob ev) = snd (ValidateOrder ob' ev)"
  by (auto simp: ValidateOrder_def validate_response_def validate_fill_def ptp_same_book
      split: option.split)

definition two_asks :: order_book where
  "two_asks = \<lparr>ob_bids = [],
     ob_asks = [(''A'', \<lparr>le_orderID = ''A'', le_price = 100, le_qty = 5, le_sequence = 1\<rparr>),
                (''B'', \<lparr>le_orderID = ''B'', le_price = 100, le_qty = 5, le_sequence = 2\<rparr>)],
     ob_sequence = 2\<rparr>"

lemma two_asks_ok: "book_ok two_asks"
  by (simp add: two_asks_def book_ok_def gomap_ok_def entry_ok_def resting_def)

text \<open>A buy that skips both resting asks.\<close>

definition buy_event :: order_event where
  "buy_event = test_event 0 ''C'' ''LIMIT'' (makeJSON (test_response ''C'' ''LIMIT'' ''BUY'' 10 10 101 101))"

lemma buy_response:
  "decode_response (ev_ActualResponseBody buy_event) = Some (test_response ''C'' ''LIMIT'' ''BUY'' 10 10 101 101)"
  by (simp add: buy_event_def test_event_def decode_makeJSON response_ok_test small_rat in_int64_def ascii_def)

theorem verdict_range_order_witness:
  "snd (ValidateOrder two_asks buy_event) =
   snd (ValidateOrder (two_asks\<lparr>ob_asks := rev (ob_asks two_asks)\<rparr>) buy_event)"
  by (rule verdict_range_order) (simp_all add: two_asks_ok same_book_def)

text \<open>
  ed is the best one: it is resting, better priced
  than the execution, and no other resting order on that side comes before it in price-time order.
\<close>

lemma reported_entry_is_best:
  assumes "snd (ValidateOrder ob ev) = Incorrect (PriceTimeSkipped best)"
    and "decode_response (ev_ActualResponseBody ev) = Some resp"
  shows "if tr_Side resp = ''BUY''
     then best \<in> snd ` set (ob_asks ob) \<and> le_price best < tr_ExecutionPrice resp \<and>
          (\<forall>a \<in> snd ` set (ob_asks ob). \<not> ask_before a best)
     else best \<in> snd ` set (ob_bids ob) \<and> tr_ExecutionPrice resp < le_price best \<and>
          (\<forall>b \<in> snd ` set (ob_bids ob). \<not> bid_before b best)"
proof -
  let ?p = "tr_ExecutionPrice resp"
  have "check_fill resp \<noteq> Some (PriceTimeSkipped best)" by (simp add: check_fill_def)
  with assms have ptp: "validatePriceTimePriority ob resp = Some best"
    by (auto simp: ValidateOrder_def validate_response_def validate_fill_def
        split: if_splits option.splits)
  show ?thesis
  proof (cases "tr_Side resp = ''BUY''")
    case True
    with ptp have b: "betterAsks ob ?p \<noteq> []" "best = hd (sort_slice ask_before (betterAsks ob ?p))"
      by (auto simp: validatePriceTimePriority_def Let_def split: if_splits)
    have in_b: "best \<in> set (betterAsks ob ?p)" using b by (simp add: sl.sorter_hd_in)
    have least: "\<not> ask_before a best" if "a \<in> set (betterAsks ob ?p)" for a
      unfolding b(2) using strict_weak_ask that by (rule sl.sorter_hd_least)
    have "\<not> ask_before a best" if "a \<in> snd ` set (ob_asks ob)" for a
    proof (cases "le_price a < ?p")
      case True
      with that least show ?thesis by (auto simp: betterAsks_def)
    next
      case False
      with in_b show ?thesis by (auto simp: betterAsks_def ask_before_def)
    qed
    with in_b True show ?thesis by (auto simp: betterAsks_def)
  next
    case False
    with ptp have b: "betterBids ob ?p \<noteq> []" "best = hd (sort_slice bid_before (betterBids ob ?p))"
      by (auto simp: validatePriceTimePriority_def Let_def split: if_splits)
    have in_b: "best \<in> set (betterBids ob ?p)" using b by (simp add: sl.sorter_hd_in)
    have least: "\<not> bid_before a best" if "a \<in> set (betterBids ob ?p)" for a
      unfolding b(2) using strict_weak_bid that by (rule sl.sorter_hd_least)
    have "\<not> bid_before a best" if "a \<in> snd ` set (ob_bids ob)" for a
    proof (cases "le_price a > ?p")
      case True
      with that least show ?thesis by (auto simp: betterBids_def)
    next
      case False
      with in_b show ?thesis by (auto simp: betterBids_def bid_before_def)
    qed
    with in_b False show ?thesis by (auto simp: betterBids_def)
  qed
qed

section \<open>The effect on the book\<close>

lemma map_of_settle:
  "map_of (ob_bids (settle resp ob)) k =
     (if k = tr_OrderID resp \<and> tr_FilledQty resp = tr_OrderedQty resp then None
      else if k = tr_OrderID resp \<and> tr_Side resp = ''BUY'' \<and> tr_Type resp = ''LIMIT'' \<and>
              tr_FilledQty resp < tr_OrderedQty resp \<and> tr_Status resp \<noteq> ''REJECTED''
           then Some (new_entry ob resp)
      else map_of (ob_bids ob) k)"
  "map_of (ob_asks (settle resp ob)) k =
     (if k = tr_OrderID resp \<and> tr_FilledQty resp = tr_OrderedQty resp then None
      else if k = tr_OrderID resp \<and> tr_Side resp \<noteq> ''BUY'' \<and> tr_Type resp = ''LIMIT'' \<and>
              tr_FilledQty resp < tr_OrderedQty resp \<and> tr_Status resp \<noteq> ''REJECTED''
           then Some (new_entry ob resp)
      else map_of (ob_asks ob) k)"
  by (auto simp: settle_def Let_def remove_order_def rest_order_simps go_simps)

text \<open>
  What a correct non-CANCEL event does to the entries under its own id: a
  completely filled order is gone from both sides; a LIMIT order filled in part and not
  rejected rests on its side with the remainder, its price and the newest sequence number.
\<close>

lemma correct_fill_settles:
  assumes "is_correct (snd (ValidateOrder ob ev))" and "ev_Type ev \<noteq> ''CANCEL''"
    and "decode_response (ev_ActualResponseBody ev) = Some resp"
  shows "if tr_FilledQty resp = tr_OrderedQty resp
     then map_of (ob_bids (fst (ValidateOrder ob ev))) (ev_OrderID ev) = None \<and>
          map_of (ob_asks (fst (ValidateOrder ob ev))) (ev_OrderID ev) = None
     else if tr_Type resp = ''LIMIT'' \<and> tr_Status resp \<noteq> ''REJECTED''
     then map_of ((if tr_Side resp = ''BUY'' then ob_bids else ob_asks) (fst (ValidateOrder ob ev)))
            (ev_OrderID ev) =
          Some \<lparr>le_orderID = ev_OrderID ev, le_price = tr_Price resp,
            le_qty = tr_OrderedQty resp - tr_FilledQty resp,
            le_sequence = ob_sequence (fst (ValidateOrder ob ev))\<rparr>
     else fst (ValidateOrder ob ev) = ob"
proof -
  have f: "fills ob ev resp" and v: "fst (ValidateOrder ob ev) = settle resp ob"
    using ValidateOrder_cases [of ob ev] assms
    by (auto simp: is_correct_def cancels_def fills_def)
  then have "tr_OrderID resp = ev_OrderID ev" "check_fill resp = None"
    by (auto simp: fills_def)
  then have "tr_OrderID resp = ev_OrderID ev" "tr_FilledQty resp \<le> tr_OrderedQty resp"
    by (auto simp: check_fill_def split: if_splits)
  then show ?thesis
    unfolding v
    by (auto simp: new_entry_def settle_def Let_def remove_order_def rest_order_simps go_simps)
qed

definition rest_event :: order_event where
  "rest_event = test_event 0 ''ORD-1'' ''LIMIT''
     (makeJSON (test_response ''ORD-1'' ''LIMIT'' ''SELL'' 10 4 100 100))"

definition cancel_event :: order_event where
  "cancel_event = test_event 0 ''ORD-2'' ''CANCEL''
     (makeJSON (zero_response\<lparr>tr_OrderID := ''ORD-2'', tr_Type := ''CANCEL'', tr_Status := ''cancelled''\<rparr>))"

lemma rest_response:
  "decode_response (ev_ActualResponseBody rest_event) = Some (test_response ''ORD-1'' ''LIMIT'' ''SELL'' 10 4 100 100)"
  by (simp add: rest_event_def test_event_def decode_makeJSON response_ok_test small_rat in_int64_def ascii_def)

definition rested_book :: order_book where
  "rested_book = \<lparr>ob_bids = [],
     ob_asks = [(''ORD-1'', \<lparr>le_orderID = ''ORD-1'', le_price = 100, le_qty = 6, le_sequence = 1\<rparr>)],
     ob_sequence = 1\<rparr>"

lemma rest_run: "ValidateOrder NewOrderBook rest_event = (rested_book, Correct)"
  by (simp add: ValidateOrder_def rest_response)
    (simp add: rest_event_def test_event_def zero_event_def validate_response_def validate_fill_def
      check_fill_def test_response_def validatePriceTimePriority_def betterBids_def NewOrderBook_def
      settle_def rest_order_def Let_def rested_book_def in_int64_def)

lemma other_entries_kept:
  assumes "k \<noteq> ev_OrderID ev"
  shows "map_of (ob_bids (fst (ValidateOrder ob ev))) k = map_of (ob_bids ob) k \<and>
    map_of (ob_asks (fst (ValidateOrder ob ev))) k = map_of (ob_asks ob) k"
  using ValidateOrder_cases [of ob ev] assms
  by (auto simp: remove_order_def go_simps map_of_settle fills_def)

text \<open>
  C28 (functional). The frame of a call: only the entries under the event's own order id can
  change. In particular a CANCEL event, whose id is its own and not its target's, removes no
  other order, and a fill never reduces the resting order it traded with.
\<close>

theorem ValidateOrder_frame:
  assumes "k \<noteq> ev_OrderID ev"
  shows "map_of (ob_bids (fst (ValidateOrder ob ev))) k = map_of (ob_bids ob) k \<and>
    map_of (ob_asks (fst (ValidateOrder ob ev))) k = map_of (ob_asks ob) k"
  using assms by (rule other_entries_kept)

theorem ValidateOrder_frame_witness:
  "map_of (ob_asks (fst (ValidateOrder rested_book cancel_event))) ''ORD-1'' \<noteq> None"
proof -
  have "''ORD-1'' \<noteq> ev_OrderID cancel_event" by (simp add: cancel_event_def test_event_def)
  from ValidateOrder_frame [OF this, of rested_book] show ?thesis by (simp add: rested_book_def)
qed

lemma run_keeps_entries:
  "list_all (\<lambda>e. ev_OrderID e \<noteq> k) evs \<Longrightarrow>
   map_of (ob_bids (fst (validate_all ob evs))) k = map_of (ob_bids ob) k \<and>
   map_of (ob_asks (fst (validate_all ob evs))) k = map_of (ob_asks ob) k"
proof (induction evs arbitrary: ob)
  case (Cons e evs)
  then show ?case
    using other_entries_kept [of k e ob] by (auto split: prod.split) (metis fst_conv)+
qed simp

text \<open>An entry better than the execution price of a LIMIT fill, on the other side of the book.\<close>

definition skips :: "target_response \<Rightarrow> limit_entry \<Rightarrow> bool" where
  "skips resp a \<longleftrightarrow> (if tr_Side resp = ''BUY'' then le_price a < tr_ExecutionPrice resp
     else tr_ExecutionPrice resp < le_price a)"

definition other_side :: "order_book \<Rightarrow> target_response \<Rightarrow> (string \<times> limit_entry) list" where
  "other_side ob resp = (if tr_Side resp = ''BUY'' then ob_asks ob else ob_bids ob)"

lemma skipped_rejects:
  assumes "map_of (other_side ob resp) k = Some a" and "skips resp a"
  shows "validatePriceTimePriority ob resp \<noteq> None"
proof -
  have "a \<in> snd ` set (other_side ob resp)" using map_of_SomeD [OF assms(1)] by force
  with assms(2) show ?thesis
    by (auto simp: other_side_def skips_def validatePriceTimePriority_def Let_def betterAsks_def betterBids_def
        filter_empty_conv split: if_splits)
qed

text \<open>
  C29 (safety). A resting order blocks for ever: once an order rests, no event of another id removes it,
  whether it confirms the order's cancellation, fills against it or belongs to another run or
  submission, and until an event of its own id comes every LIMIT fill at a worse price on the other
  side, of any submission, is judged incorrect.
\<close>

theorem resting_order_blocks:
  assumes "map_of (other_side ob resp) k = Some a" and "skips resp a"
    and "list_all (\<lambda>e. ev_OrderID e \<noteq> k) evs"
    and "decode_response (ev_ActualResponseBody ev) = Some resp" and "ev_Type ev \<noteq> ''CANCEL''"
    and "tr_Type resp = ''LIMIT''" and "0 < tr_FilledQty resp"
  shows "\<not> is_correct (snd (ValidateOrder (fst (validate_all ob evs)) ev))"
proof -
  let ?ob = "fst (validate_all ob evs)"
  have "map_of (other_side ?ob resp) k = Some a"
    using run_keeps_entries [OF assms(3), of ob] assms(1) by (auto simp: other_side_def split: if_splits)
  then obtain best where "validatePriceTimePriority ?ob resp = Some best"
    using skipped_rejects assms(2) by blast
  with assms(4-7) show ?thesis
    by (auto simp: ValidateOrder_def validate_response_def validate_fill_def is_correct_def split: option.split)
qed

theorem resting_order_blocks_witness:
  "\<not> is_correct (snd (ValidateOrder (fst (validate_all (fst (ValidateOrder NewOrderBook rest_event)) [cancel_event]))
     (buy_event\<lparr>ev_SubmissionID := ''B''\<rparr>)))"
  unfolding rest_run fst_conv
proof (rule resting_order_blocks)
  let ?resp = "test_response ''C'' ''LIMIT'' ''BUY'' 10 10 101 101"
  show "map_of (other_side rested_book ?resp) ''ORD-1'' =
      Some \<lparr>le_orderID = ''ORD-1'', le_price = 100, le_qty = 6, le_sequence = 1\<rparr>"
    by (simp add: other_side_def rested_book_def test_response_def)
  show "list_all (\<lambda>e. ev_OrderID e \<noteq> ''ORD-1'') [cancel_event]" by (simp add: cancel_event_def test_event_def)
  show "decode_response (ev_ActualResponseBody (buy_event\<lparr>ev_SubmissionID := ''B''\<rparr>)) = Some ?resp"
    by (simp add: buy_response)
  show "skips ?resp \<lparr>le_orderID = ''ORD-1'', le_price = 100, le_qty = 6, le_sequence = 1\<rparr>"
    by (simp add: skips_def test_response_def)
  show "ev_Type (buy_event\<lparr>ev_SubmissionID := ''B''\<rparr>) \<noteq> ''CANCEL''" by (simp add: buy_event_def test_event_def)
qed (simp_all add: test_response_def)

end
