(* ===== verification/WsHub.thy ===== *)
theory WsHub
  imports Prelude
begin

text \<open>
  \<open>cmd/leaderboard/ws.go\<close>: the registry of browser connections, the goroutine that relays each
  Redis message to a snapshot of it (\<open>listenAndBroadcast\<close>) and one handler goroutine per
  connection (\<open>handleWebSocket\<close>), as a step relation: one step per critical section or call that
  another goroutine can observe. A connection is a number, as the code's map key is a pointer.
\<close>

type_synonym conn = nat

text \<open>Where \<open>listenAndBroadcast\<close> is: waiting, writing to the rest of its snapshot, or about to
  delete the connection it just closed.\<close>

datatype phase = Waiting | Writing "conn list" | Dropping conn "conn list"

record hub =
  hb_clients :: "conn set"
  hb_phase :: phase
  hb_messages :: "string list"
  hb_snapshot :: "conn set"
  hb_sent :: "(nat \<times> conn) list"
  hb_reading :: "conn set"
  hb_leaving :: "conn set"
  hb_closed :: "conn set"
  hb_known :: "conn set"

definition hub_start :: hub where
  "hub_start = \<lparr>hb_clients = {}, hb_phase = Waiting, hb_messages = [], hb_snapshot = {},
     hb_sent = [], hb_reading = {}, hb_leaving = {}, hb_closed = {}, hb_known = {}\<rparr>"

text \<open>The number of the message being relayed, from 1.\<close>

abbreviation hb_now :: "hub \<Rightarrow> nat" where
  "hb_now h \<equiv> length (hb_messages h)"

inductive hub_step :: "hub \<Rightarrow> hub \<Rightarrow> bool" where
  \<comment> \<open>\<open>Upgrade\<close> gave a new connection and it is registered\<close>
  Register: "c \<notin> hb_known h \<Longrightarrow>
    hub_step h (h\<lparr>hb_clients := insert c (hb_clients h), hb_reading := insert c (hb_reading h),
      hb_known := insert c (hb_known h)\<rparr>)"
  \<comment> \<open>\<open>ReadMessage\<close> failed: the deferred delete, then the deferred \<open>Close\<close>\<close>
| Unregister: "c \<in> hb_reading h \<Longrightarrow>
    hub_step h (h\<lparr>hb_clients := hb_clients h - {c}, hb_reading := hb_reading h - {c},
      hb_leaving := insert c (hb_leaving h)\<rparr>)"
| Leave: "c \<in> hb_leaving h \<Longrightarrow>
    hub_step h (h\<lparr>hb_leaving := hb_leaving h - {c}, hb_closed := insert c (hb_closed h)\<rparr>)"
  \<comment> \<open>\<open>ReceiveMessage\<close> and the snapshot of the registry, in the map's order\<close>
| Receive: "hb_phase h = Waiting \<Longrightarrow> distinct cs \<Longrightarrow> set cs = hb_clients h \<Longrightarrow>
    hub_step h (h\<lparr>hb_phase := Writing cs, hb_messages := hb_messages h @ [payload],
      hb_snapshot := hb_clients h\<rparr>)"
  \<comment> \<open>\<open>WriteMessage\<close> within its deadline, or its failure and \<open>client.Close\<close>\<close>
| WriteOk: "hb_phase h = Writing (c # cs) \<Longrightarrow> c \<notin> hb_closed h \<Longrightarrow>
    hub_step h (h\<lparr>hb_phase := Writing cs, hb_sent := hb_sent h @ [(hb_now h, c)]\<rparr>)"
| WriteFail: "hb_phase h = Writing (c # cs) \<Longrightarrow>
    hub_step h (h\<lparr>hb_phase := Dropping c cs, hb_closed := insert c (hb_closed h)\<rparr>)"
| Drop: "hb_phase h = Dropping c cs \<Longrightarrow>
    hub_step h (h\<lparr>hb_phase := Writing cs, hb_clients := hb_clients h - {c}\<rparr>)"
| Done: "hb_phase h = Writing [] \<Longrightarrow> hub_step h (h\<lparr>hb_phase := Waiting\<rparr>)"

inductive hub_reach :: "hub \<Rightarrow> bool" where
  start: "hub_reach hub_start"
| step: "hub_reach h \<Longrightarrow> hub_step h h' \<Longrightarrow> hub_reach h'"

inductive_cases hub_stepE: "hub_step h h'"

section \<open>Invariant\<close>

text \<open>The connections the broadcast has still to serve.\<close>

fun todo :: "phase \<Rightarrow> conn list" where
  "todo Waiting = []"
| "todo (Writing cs) = cs"
| "todo (Dropping c cs) = cs"

definition registry_ok :: "hub \<Rightarrow> bool" where
  "registry_ok h \<longleftrightarrow> hb_clients h \<subseteq> hb_reading h \<and> hb_reading h \<subseteq> hb_known h \<and>
     hb_leaving h \<subseteq> hb_known h \<and> hb_closed h \<subseteq> hb_known h \<and>
     set (todo (hb_phase h)) \<subseteq> hb_known h \<and> hb_reading h \<inter> hb_leaving h = {} \<and>
     (\<forall>c\<in>hb_closed h. c \<in> hb_clients h \<longrightarrow> (\<exists>cs. hb_phase h = Dropping c cs))"

definition relay_ok :: "hub \<Rightarrow> bool" where
  "relay_ok h \<longleftrightarrow>
     distinct (todo (hb_phase h)) \<and>
     (\<forall>c cs. hb_phase h = Dropping c cs \<longrightarrow> c \<in> hb_closed h \<and> c \<notin> set cs) \<and>
     (\<forall>c\<in>set (todo (hb_phase h)). (hb_now h, c) \<notin> set (hb_sent h)) \<and>
     (\<forall>c\<in>hb_snapshot h. c \<in> set (todo (hb_phase h)) \<or> (hb_now h, c) \<in> set (hb_sent h) \<or> c \<in> hb_closed h) \<and>
     (\<forall>p\<in>set (hb_sent h). fst p \<le> hb_now h) \<and>
     distinct (hb_sent h) \<and> sorted (map fst (hb_sent h))"

lemma registry_ok_start [inv_intros]: "registry_ok hub_start"
  by (simp add: registry_ok_def hub_start_def)

lemma relay_ok_start [inv_intros]: "relay_ok hub_start"
  by (simp add: relay_ok_def hub_start_def)

lemma registry_ok_step [inv_intros]: "registry_ok h \<Longrightarrow> hub_step h h' \<Longrightarrow> registry_ok h'"
  by (erule hub_stepE) (auto simp: registry_ok_def)

lemma relay_ok_step [inv_intros]: "relay_ok h \<Longrightarrow> hub_step h h' \<Longrightarrow> relay_ok h'"
  by (erule hub_stepE) (auto simp: relay_ok_def sorted_append dest: order_trans)

lemma hub_reach_ok: "hub_reach h \<Longrightarrow> registry_ok h \<and> relay_ok h"
  by (induction rule: hub_reach.induct) (auto intro: inv_intros)

section \<open>Properties\<close>

text \<open>
  C22 (invariant). A connection is registered only while its handler is reading from it, and a
  connection that was closed is not in the registry, except the one the broadcaster has just
  closed and is about to delete: no dead connection is ever kept.
\<close>

theorem registry_live:
  "hub_reach h \<Longrightarrow> hb_clients h \<subseteq> hb_reading h \<and>
   (\<forall>c \<in> hb_clients h \<inter> hb_closed h. \<exists>cs. hb_phase h = Dropping c cs)"
  using hub_reach_ok [of h] by (auto simp: registry_ok_def)

text \<open>
  C23 (safety). No browser gets a message twice, and each gets the messages in the order Redis
  delivered them, whatever connects, disconnects or fails in between.
\<close>

theorem relayed_once_in_order:
  "hub_reach h \<Longrightarrow> distinct (hb_sent h) \<and> sorted (map fst (hb_sent h)) \<and>
   (\<forall>c. sorted_wrt (<) (map fst (filter (\<lambda>p. snd p = c) (hb_sent h))))"
proof -
  assume "hub_reach h"
  then have d: "distinct (hb_sent h)" and s: "sorted (map fst (hb_sent h))"
    using hub_reach_ok [of h] by (auto simp: relay_ok_def)
  have "sorted_wrt (<) (map fst (filter (\<lambda>p. snd p = c) ps))"
    if "distinct ps" "sorted (map fst ps)" for c and ps :: "(nat \<times> conn) list"
    using that by (induction ps) (auto simp: le_less)
  with d s show ?thesis by blast
qed

text \<open>
  C24 (liveness). When the relay of a message ends, every connection of its snapshot got the
  message or is closed: a write that fails does not keep the others from being served.
\<close>

theorem broadcast_complete:
  "hub_reach h \<Longrightarrow> hb_phase h = Writing [] \<Longrightarrow> c \<in> hb_snapshot h \<Longrightarrow>
   (hb_now h, c) \<in> set (hb_sent h) \<or> c \<in> hb_closed h"
  using hub_reach_ok [of h] by (auto simp: relay_ok_def)

text \<open>
  The remaining work of a broadcast shrinks with every step of the broadcaster, and it always
  has a step: \<open>WriteMessage\<close> returns because of its deadline.
\<close>

fun work :: "phase \<Rightarrow> nat" where
  "work Waiting = 0"
| "work (Writing cs) = 2 * length cs + 1"
| "work (Dropping c cs) = 2 * length cs + 2"

inductive relay_step :: "hub \<Rightarrow> hub \<Rightarrow> bool" where
  "hub_step h h' \<Longrightarrow> hb_messages h' = hb_messages h \<Longrightarrow> hb_phase h' \<noteq> hb_phase h \<Longrightarrow> relay_step h h'"

text \<open>
  C25 (termination). A broadcast that has started can always go on, and every step it takes
  lowers its remaining work: it ends after at most two steps per connection of its snapshot.
\<close>

theorem broadcast_ends:
  "(hb_phase h \<noteq> Waiting \<longrightarrow> (\<exists>h'. relay_step h h')) \<and>
   (relay_step h h' \<longrightarrow> work (hb_phase h') < work (hb_phase h))"
proof (intro conjI impI)
  assume busy: "hb_phase h \<noteq> Waiting"
  show "\<exists>h'. relay_step h h'"
  proof (cases "hb_phase h")
    case (Writing cs)
    then show ?thesis
      by (cases cs) (fastforce intro: relay_step.intros hub_step.Done hub_step.WriteFail)+
  next
    case (Dropping c cs)
    then show ?thesis by (fastforce intro: relay_step.intros hub_step.Drop)
  qed (use busy in simp)
next
  assume "relay_step h h'"
  then show "work (hb_phase h') < work (hb_phase h)"
    by (auto elim!: relay_step.cases hub_stepE)
qed

section \<open>A run\<close>

text \<open>One browser connects and gets one message.\<close>

definition one_browser :: hub where
  "one_browser = hub_start\<lparr>hb_clients := {1}, hb_reading := {1}, hb_known := {1}\<rparr>"

definition one_message :: hub where
  "one_message = one_browser\<lparr>hb_phase := Writing [1], hb_messages := [''[]''], hb_snapshot := {1}\<rparr>"

definition one_sent :: hub where
  "one_sent = one_message\<lparr>hb_phase := Writing [], hb_sent := [(1, 1)]\<rparr>"

lemma reach_one_browser: "hub_reach one_browser"
  using hub_reach.step [OF hub_reach.start hub_step.Register [of 1 hub_start]]
  by (simp add: one_browser_def hub_start_def)

lemma reach_one_message: "hub_reach one_message"
  using hub_reach.step [OF reach_one_browser hub_step.Receive [of one_browser "[1]" "''[]''"]]
  by (simp add: one_message_def one_browser_def hub_start_def)

lemma reach_one_sent: "hub_reach one_sent"
  using hub_reach.step [OF reach_one_message hub_step.WriteOk [of one_message 1 "[]"]]
  by (simp add: one_sent_def one_message_def one_browser_def hub_start_def)

theorem registry_live_witness: "hb_clients one_sent \<subseteq> hb_reading one_sent"
  using registry_live [OF reach_one_sent] by (rule conjunct1)

theorem relayed_once_in_order_witness: "distinct (hb_sent one_sent)"
  using relayed_once_in_order [OF reach_one_sent] by (rule conjunct1)

theorem broadcast_complete_witness: "(hb_now one_sent, 1) \<in> set (hb_sent one_sent) \<or> 1 \<in> hb_closed one_sent"
  by (rule broadcast_complete [OF reach_one_sent])
    (simp_all add: one_sent_def one_message_def one_browser_def hub_start_def)

theorem broadcast_ends_witness:
  "work (hb_phase one_sent) < work (hb_phase one_message) \<and> (\<exists>h'. relay_step one_message h')"
proof -
  have "hub_step one_message one_sent"
    using hub_step.WriteOk [of one_message 1 "[]"]
    by (simp add: one_sent_def one_message_def one_browser_def hub_start_def)
  then have "relay_step one_message one_sent"
    by (rule relay_step.intros) (simp_all add: one_sent_def one_message_def)
  then show ?thesis
    using broadcast_ends [of one_message one_sent] by (simp add: one_message_def)
qed

end
